theory Spec2Isabelle
  imports Main "HOL-Library.Char_ord" "HOL-Library.List_Lexorder" "HOL-Library.Multiset"
begin

section \<open>Python values and errors\<close>

text \<open>
  The program is a single Python module, \<^verbatim>\<open>whoishistory.py\<close>. Its functions are
  embedded as HOL functions. Every exception the code can raise, and every
  \<^verbatim>\<open>self.exit(1)\<close>, is a value of type \<open>error\<close>; a function that can raise returns
  \<open>error + 'a\<close> with the error on the left.

  Python strings are modelled as \<open>string\<close>: a list of characters, each character a
  code point below 256. Strings are compared as Python compares them, code point by
  code point, a proper prefix being smaller.
\<close>

datatype error =
    TypeError
  | ValueError
  | KeyError
  | AttributeError
  | IntegrityError
  | PywhoisError
  | DNSException
  | SystemExit int

definition bind_err :: "error + 'a \<Rightarrow> ('a \<Rightarrow> error + 'b) \<Rightarrow> error + 'b" where
  "bind_err m f = (case m of Inl e \<Rightarrow> Inl e | Inr x \<Rightarrow> f x)"

text \<open>
  A \<^verbatim>\<open>datetime.datetime\<close> object: its civil fields and its \<^verbatim>\<open>tzinfo\<close>. A naive
  datetime has \<open>tzinfo = None\<close>; an aware one carries its UTC offset in seconds.
\<close>

record datetime =
  year :: nat
  month :: nat
  day :: nat
  hour :: nat
  minute :: nat
  second :: nat
  microsecond :: nat
  tzinfo :: "int option"

text \<open>
  The values python-whois puts into the parsed dictionary: \<^verbatim>\<open>None\<close>, a string or a
  datetime, or a flat list of those.
\<close>

datatype scalar = VNone | VStr string | VDate datetime

datatype pyval = Scalar scalar | VList "scalar list"

type_synonym parsed = "string \<rightharpoonup> pyval"

definition getitem :: "parsed \<Rightarrow> string \<Rightarrow> error + pyval" where
  "getitem parsed_data key = (case parsed_data key of None \<Rightarrow> Inl KeyError | Some v \<Rightarrow> Inr v)"

section \<open>Dates\<close>

text \<open>
  The constructor \<^verbatim>\<open>datetime.datetime(y, m, d, H, M, S)\<close> raises \<^verbatim>\<open>ValueError\<close> when a
  field is out of range; the result is naive with zero microseconds.
\<close>

definition is_leap :: "nat \<Rightarrow> bool" where
  "is_leap y = (y mod 4 = 0 \<and> (y mod 100 \<noteq> 0 \<or> y mod 400 = 0))"

definition days_in_month :: "nat \<Rightarrow> nat \<Rightarrow> nat" where
  "days_in_month y m =
     (if m = 2 \<and> is_leap y then 29
      else [31, 28, 31, 30, 31, 30, 31, 31, 30, 31, 30, 31] ! (m - 1))"

definition mk_datetime :: "nat \<Rightarrow> nat \<Rightarrow> nat \<Rightarrow> nat \<Rightarrow> nat \<Rightarrow> nat \<Rightarrow> error + datetime" where
  "mk_datetime y m d H M S =
     (if 1 \<le> y \<and> y \<le> 9999 \<and> 1 \<le> m \<and> m \<le> 12 \<and> 1 \<le> d \<and> d \<le> days_in_month y m
         \<and> H \<le> 23 \<and> M \<le> 59 \<and> S \<le> 59
      then Inr \<lparr>year = y, month = m, day = d, hour = H, minute = M, second = S,
                 microsecond = 0, tzinfo = None\<rparr>
      else Inl ValueError)"

text \<open>
  The instant a datetime denotes, in microseconds of the proleptic Gregorian calendar,
  as Python's \<^verbatim>\<open>datetime\<close> computes it: the day number of the civil date, the time of
  day, minus the UTC offset of an aware value.
\<close>

definition days_before_year :: "nat \<Rightarrow> int" where
  "days_before_year y =
     (let p = int y - 1 in p * 365 + p div 4 - p div 100 + p div 400)"

definition days_before_month :: "nat \<Rightarrow> nat \<Rightarrow> int" where
  "days_before_month y m = int (sum_list (map (days_in_month y) [1..<m]))"

definition ymd2ord :: "nat \<Rightarrow> nat \<Rightarrow> nat \<Rightarrow> int" where
  "ymd2ord y m d = days_before_year y + days_before_month y m + int d"

definition civil_micros :: "datetime \<Rightarrow> int" where
  "civil_micros d =
     (((ymd2ord (year d) (month d) (day d) * 24 + int (hour d)) * 60 + int (minute d)) * 60
        + int (second d)) * 1000000 + int (microsecond d)"

definition utc_micros :: "datetime \<Rightarrow> int" where
  "utc_micros d =
     civil_micros d - (case tzinfo d of None \<Rightarrow> 0 | Some off \<Rightarrow> off * 1000000)"

text \<open>
  Ordering of naive datetimes (\<^verbatim>\<open><\<close>, used by \<^verbatim>\<open>max\<close> and \<^verbatim>\<open>min\<close>): the seven
  civil fields compared in turn.
\<close>

definition dt_key :: "datetime \<Rightarrow> nat list" where
  "dt_key d = [year d, month d, day d, hour d, minute d, second d, microsecond d]"

definition dt_lt :: "datetime \<Rightarrow> datetime \<Rightarrow> bool" where
  "dt_lt a b = (dt_key a < dt_key b)"

text \<open>
  Python's \<^verbatim>\<open>==\<close> on the values of the parsed dictionary. Two naive datetimes are
  equal when their fields are; two aware ones when they denote the same instant; a
  naive and an aware one are never equal. Values of different types are unequal.
\<close>

definition dt_eq :: "datetime \<Rightarrow> datetime \<Rightarrow> bool" where
  "dt_eq a b =
     (case (tzinfo a, tzinfo b) of
        (None, None) \<Rightarrow> dt_key a = dt_key b
      | (Some _, Some _) \<Rightarrow> utc_micros a = utc_micros b
      | _ \<Rightarrow> False)"

fun scalar_eq :: "scalar \<Rightarrow> scalar \<Rightarrow> bool" where
  "scalar_eq VNone VNone = True"
| "scalar_eq (VStr a) (VStr b) = (a = b)"
| "scalar_eq (VDate a) (VDate b) = dt_eq a b"
| "scalar_eq _ _ = False"

fun py_eq :: "pyval \<Rightarrow> pyval \<Rightarrow> bool" where
  "py_eq (Scalar a) (Scalar b) = scalar_eq a b"
| "py_eq (VList xs) (VList ys) = list_all2 scalar_eq xs ys"
| "py_eq _ _ = False"

section \<open>Strings and the two regular expressions\<close>

definition join :: "string \<Rightarrow> string list \<Rightarrow> string" where
  "join sep xs = (case xs of [] \<Rightarrow> [] | x # rest \<Rightarrow> x @ concat (map (\<lambda>y. sep @ y) rest))"

definition startswith :: "string \<Rightarrow> string \<Rightarrow> bool" where
  "startswith s p = (take (length p) s = p)"

text \<open>\<^verbatim>\<open>sub in s\<close> on strings.\<close>

fun contains :: "string \<Rightarrow> string \<Rightarrow> bool" where
  "contains sub [] = (sub = [])"
| "contains sub (c # cs) = (startswith (c # cs) sub \<or> contains sub cs)"

definition is_digit :: "char \<Rightarrow> bool" where
  "is_digit c = (c \<in> set ''0123456789'')"

text \<open>
  The characters \<^verbatim>\<open>\s\<close> matches below code point 256: tab to carriage return, the four
  separators 28 to 31, the space, NEL (133) and the no-break space (160).
\<close>

definition is_space :: "char \<Rightarrow> bool" where
  "is_space c = (of_char c \<in> set [9, 10, 11, 12, 13, 28, 29, 30, 31, 32, 133, 160 :: nat])"

text \<open>
  \<^verbatim>\<open>$\<close> without \<^verbatim>\<open>re.MULTILINE\<close>: the end of the string, or just before a newline that
  is the last character.
\<close>

definition at_end :: "string \<Rightarrow> bool" where
  "at_end r = (r = [] \<or> r = [CHR 0x0A])"

text \<open>
  \<^verbatim>\<open>date_t_re = ^(\d+)-(\d+)-(\d+)T(\d+):(\d+):(\d+)$\<close>. A greedy \<^verbatim>\<open>\d+\<close> takes every
  digit in front of it: giving one back leaves a digit where a separator must follow.
\<close>

definition digits_plus :: "string \<Rightarrow> (string \<times> string) option" where
  "digits_plus s =
     (if takeWhile is_digit s = [] then None
      else Some (takeWhile is_digit s, dropWhile is_digit s))"

definition expect :: "char \<Rightarrow> string \<Rightarrow> string option" where
  "expect c s = (case s of [] \<Rightarrow> None | x # r \<Rightarrow> if x = c then Some r else None)"

definition digits_then :: "char \<Rightarrow> string \<Rightarrow> (string \<times> string) option" where
  "digits_then sep s =
     Option.bind (digits_plus s) (\<lambda>(g, r). map_option (\<lambda>r'. (g, r')) (expect sep r))"

definition date_t_re_match ::
  "string \<Rightarrow> (string \<times> string \<times> string \<times> string \<times> string \<times> string) option" where
  "date_t_re_match s =
     Option.bind (digits_then (CHR ''-'') s) (\<lambda>(g_year, r1).
     Option.bind (digits_then (CHR ''-'') r1) (\<lambda>(g_month, r2).
     Option.bind (digits_then (CHR ''T'') r2) (\<lambda>(g_day, r3).
     Option.bind (digits_then (CHR '':'') r3) (\<lambda>(g_hour, r4).
     Option.bind (digits_then (CHR '':'') r4) (\<lambda>(g_min, r5).
     Option.bind (digits_plus r5) (\<lambda>(g_sec, r6).
     if at_end r6 then Some (g_year, g_month, g_day, g_hour, g_min, g_sec) else None))))))"

text \<open>\<^verbatim>\<open>int(...)\<close> of a string of decimal digits.\<close>

definition digit_val :: "char \<Rightarrow> nat" where
  "digit_val c = of_char c - 48"

definition int_of_digits :: "string \<Rightarrow> nat" where
  "int_of_digits s = foldl (\<lambda>acc c. 10 * acc + digit_val c) 0 s"

text \<open>
  \<^verbatim>\<open>status_url_re = ^(?P<status>.*?)( \(?(?P<url>http\S+?)\)?)?$\<close>, matched with
  \<^verbatim>\<open>re.match\<close>.

  \<open>paren_end\<close> is the tail \<^verbatim>\<open>\)?$\<close>; \<open>nonspace_lazy\<close> is \<^verbatim>\<open>\S+?\)?$\<close>: at least one
  non-space character, then as few more as let the tail match. \<open>url_group\<close> is the
  optional group followed by \<^verbatim>\<open>$\<close>, when the group takes part:
  \<^verbatim>\<open> \(?http\S+?\)?$\<close>.
\<close>

definition paren_end :: "string \<Rightarrow> bool" where
  "paren_end r = (case r of [] \<Rightarrow> True | c # r' \<Rightarrow> (c = CHR '')'' \<and> at_end r') \<or> at_end r)"

fun nonspace_lazy :: "string \<Rightarrow> bool" where
  "nonspace_lazy [] = False"
| "nonspace_lazy (c # cs) = (\<not> is_space c \<and> (paren_end cs \<or> nonspace_lazy cs))"

definition http_rest :: "string \<Rightarrow> bool" where
  "http_rest r = (startswith r ''http'' \<and> nonspace_lazy (drop 4 r))"

definition url_group :: "string \<Rightarrow> bool" where
  "url_group r =
     (case r of [] \<Rightarrow> False
      | c # r1 \<Rightarrow> c = CHR '' '' \<and>
          (case r1 of [] \<Rightarrow> False
           | p # r2 \<Rightarrow> (p = CHR ''('' \<and> http_rest r2) \<or> http_rest r1))"

text \<open>
  What may follow the \<^verbatim>\<open>status\<close> group: the optional group (tried first, it is greedy)
  and the end, or the end alone.
\<close>

definition status_tail :: "string \<Rightarrow> bool" where
  "status_tail r = (url_group r \<or> at_end r)"

text \<open>
  The lazy \<^verbatim>\<open>.*?\<close> of the \<^verbatim>\<open>status\<close> group: the shortest prefix free of newlines
  after which the rest of the pattern matches. The result is the text of the group
  \<^verbatim>\<open>status\<close>, or \<open>None\<close> when \<^verbatim>\<open>re.match\<close> returns \<^verbatim>\<open>None\<close>.
\<close>

fun status_lazy :: "string \<Rightarrow> string \<Rightarrow> string option" where
  "status_lazy acc [] = (if status_tail [] then Some acc else None)"
| "status_lazy acc (c # cs) =
     (if status_tail (c # cs) then Some acc
      else if c = CHR 0x0A then None
      else status_lazy (acc @ [c]) cs)"

definition status_url_re_match :: "string \<Rightarrow> string option" where
  "status_url_re_match s = status_lazy [] s"

section \<open>Normalisation: \<^verbatim>\<open>_clean_parsed_data\<close>\<close>

text \<open>A loop over a list whose body may raise stops at the first exception.\<close>

fun map_err :: "('a \<Rightarrow> error + 'b) \<Rightarrow> 'a list \<Rightarrow> error + 'b list" where
  "map_err f [] = Inr []"
| "map_err f (x # xs) = bind_err (f x) (\<lambda>y. bind_err (map_err f xs) (\<lambda>ys. Inr (y # ys)))"

text \<open>
  The body of the loop over \<^verbatim>\<open>dates\<close>. A naive datetime loses its microseconds; an
  aware one is rebuilt from its own six civil fields, without \<^verbatim>\<open>tzinfo\<close> (these fields
  come from a datetime, so the constructor cannot raise). A string is parsed with
  \<^verbatim>\<open>date_t_re\<close>, and the program exits when it does not match. Anything else reaches
  \<^verbatim>\<open>date_t_re.match\<close>, which raises \<^verbatim>\<open>TypeError\<close>.
\<close>

fun clean_date :: "scalar \<Rightarrow> error + datetime" where
  "clean_date (VDate date) =
     (if tzinfo date = None then Inr (date\<lparr>microsecond := 0\<rparr>)
      else Inr \<lparr>year = year date, month = month date, day = day date, hour = hour date,
                 minute = minute date, second = second date, microsecond = 0,
                 tzinfo = None\<rparr>)"
| "clean_date (VStr date) =
     (case date_t_re_match date of
        Some (g_year, g_month, g_day, g_hour, g_min, g_sec) \<Rightarrow>
          mk_datetime (int_of_digits g_year) (int_of_digits g_month) (int_of_digits g_day)
            (int_of_digits g_hour) (int_of_digits g_min) (int_of_digits g_sec)
      | None \<Rightarrow> Inl (SystemExit 1))"
| "clean_date VNone = Inl TypeError"

text \<open>
  \<^verbatim>\<open>max\<close> and \<^verbatim>\<open>min\<close> of a list: the running best is replaced only by a strictly
  better item; an empty list raises \<^verbatim>\<open>ValueError\<close>.
\<close>

definition py_max :: "datetime list \<Rightarrow> error + datetime" where
  "py_max xs =
     (case xs of [] \<Rightarrow> Inl ValueError
      | x # rest \<Rightarrow> Inr (foldl (\<lambda>best item. if dt_lt best item then item else best) x rest))"

definition py_min :: "datetime list \<Rightarrow> error + datetime" where
  "py_min xs =
     (case xs of [] \<Rightarrow> Inl ValueError
      | x # rest \<Rightarrow> Inr (foldl (\<lambda>best item. if dt_lt item best then item else best) x rest))"

definition as_list :: "pyval \<Rightarrow> scalar list" where
  "as_list v = (case v of VList xs \<Rightarrow> xs | Scalar x \<Rightarrow> [x])"

definition reduce_dates :: "(datetime list \<Rightarrow> error + datetime) \<Rightarrow> pyval \<Rightarrow> error + datetime" where
  "reduce_dates func v = bind_err (map_err clean_date (as_list v)) func"

definition clean_date_field ::
  "string \<Rightarrow> (datetime list \<Rightarrow> error + datetime) \<Rightarrow> parsed \<Rightarrow> error + parsed" where
  "clean_date_field key func parsed_data =
     bind_err (getitem parsed_data key) (\<lambda>v.
     bind_err (reduce_dates func v) (\<lambda>d.
     Inr (parsed_data(key \<mapsto> Scalar (VDate d)))))"

text \<open>
  The loop \<^verbatim>\<open>for key, func in [('updated_date', max), ('creation_date', min),
  ('expiration_date', min)]\<close>.
\<close>

definition date_fields :: "(string \<times> (datetime list \<Rightarrow> error + datetime)) list" where
  "date_fields =
     [(''updated_date'', py_max), (''creation_date'', py_min), (''expiration_date'', py_min)]"

fun clean_date_fields ::
  "(string \<times> (datetime list \<Rightarrow> error + datetime)) list \<Rightarrow> parsed \<Rightarrow> error + parsed" where
  "clean_date_fields [] parsed_data = Inr parsed_data"
| "clean_date_fields ((key, func) # rest) parsed_data =
     bind_err (clean_date_field key func parsed_data) (clean_date_fields rest)"

text \<open>
  \<^verbatim>\<open>str.lower\<close> below code point 256: the ASCII capitals and the Latin-1 capitals
  (192 to 222 without the multiplication sign 215) move up by 32.
\<close>

definition lower_char :: "char \<Rightarrow> char" where
  "lower_char c =
     (let n = (of_char c :: nat) in
      if (65 \<le> n \<and> n \<le> 90) \<or> (192 \<le> n \<and> n \<le> 222 \<and> n \<noteq> 215) then char_of (n + 32) else c)"

definition lower :: "string \<Rightarrow> string" where
  "lower s = map lower_char s"

text \<open>
  \<^verbatim>\<open>for ns in parsed_data['name_servers']\<close>: a list gives its items, a string its
  characters, anything else is not iterable. \<^verbatim>\<open>ns.lower()\<close> needs a string.
\<close>

definition iterate :: "pyval \<Rightarrow> error + scalar list" where
  "iterate v =
     (case v of VList xs \<Rightarrow> Inr xs
      | Scalar x \<Rightarrow> (case x of VStr s \<Rightarrow> Inr (map (\<lambda>c. VStr [c]) s) | _ \<Rightarrow> Inl TypeError))"

definition lower_of :: "scalar \<Rightarrow> error + string" where
  "lower_of ns = (case ns of VStr s \<Rightarrow> Inr (lower s) | _ \<Rightarrow> Inl AttributeError)"

definition clean_name_servers :: "parsed \<Rightarrow> error + parsed" where
  "clean_name_servers parsed_data =
     bind_err (getitem parsed_data ''name_servers'') (\<lambda>v.
     bind_err (iterate v) (\<lambda>items.
     bind_err (map_err lower_of items) (\<lambda>name_servers.
     Inr (parsed_data(''name_servers'' \<mapsto>
            Scalar (VStr (join '', '' (sort (remdups name_servers)))))))))"

text \<open>
  The body of the loop over \<^verbatim>\<open>statuses\<close>: the group \<^verbatim>\<open>status\<close> when the pattern
  matches, the status itself otherwise.
\<close>

definition strip_status :: "scalar \<Rightarrow> error + string" where
  "strip_status status =
     (case status of
        VStr s \<Rightarrow> (case status_url_re_match s of Some g \<Rightarrow> Inr g | None \<Rightarrow> Inr s)
      | _ \<Rightarrow> Inl TypeError)"

definition clean_status :: "parsed \<Rightarrow> error + parsed" where
  "clean_status parsed_data =
     bind_err (getitem parsed_data ''status'') (\<lambda>v.
     bind_err (map_err strip_status (as_list v)) (\<lambda>new_statuses.
     Inr (parsed_data(''status'' \<mapsto>
            Scalar (VStr (join '', '' (sort (remdups new_statuses))))))))"

text \<open>
  Emails: \<^verbatim>\<open>', '.join(sorted(parsed_data['emails']))\<close> when the value is a list, whose
  items must be strings; no change otherwise.
\<close>

definition str_of :: "scalar \<Rightarrow> error + string" where
  "str_of x = (case x of VStr s \<Rightarrow> Inr s | _ \<Rightarrow> Inl TypeError)"

definition clean_emails :: "parsed \<Rightarrow> error + parsed" where
  "clean_emails parsed_data =
     bind_err (getitem parsed_data ''emails'') (\<lambda>v.
     case v of
       VList xs \<Rightarrow>
         bind_err (map_err str_of xs) (\<lambda>emails.
         Inr (parsed_data(''emails'' \<mapsto> Scalar (VStr (join '', '' (sort emails))))))
     | Scalar _ \<Rightarrow> Inr parsed_data)"

definition clean_parsed_data :: "parsed \<Rightarrow> error + parsed" where
  "clean_parsed_data parsed_data =
     bind_err (clean_date_fields date_fields parsed_data) (\<lambda>p3.
     bind_err (clean_name_servers p3) (\<lambda>p4.
     bind_err (clean_status p4) (\<lambda>p5.
     clean_emails p5)))"

text \<open>Reading one key of a result, for statements about a single field.\<close>

definition result_field :: "string \<Rightarrow> error + parsed \<Rightarrow> error + pyval" where
  "result_field key r = bind_err r (\<lambda>p. getitem p key)"

section \<open>DNS lookups\<close>

text \<open>
  The resolver is outside the program. A query gives its answers, raises
  \<^verbatim>\<open>dns.resolver.NoAnswer\<close>, or raises another exception, which the code does not catch.
  An A or AAAA answer carries the text of an address; an MX answer a preference and an
  exchange name.
\<close>

datatype 'a answer = Answer "'a list" | NoAnswer | Failure

record mx_rdata =
  preference :: int
  exchange :: string

text \<open>
  The world outside one run of the program: the text that the \<open>n\<close>-th call of
  \<^verbatim>\<open>client.whois_lookup\<close> returns for a domain, what \<^verbatim>\<open>whois.WhoisEntry.load\<close> makes of
  a text (it may raise), the answers of the resolver to the three queries, and the time
  that \<^verbatim>\<open>now()\<close> gives in the database.
\<close>

record world =
  whois_lookup :: "string \<Rightarrow> nat \<Rightarrow> string"
  whois_load :: "string \<Rightarrow> string \<Rightarrow> error + parsed"
  query_A :: "string \<Rightarrow> string answer"
  query_AAAA :: "string \<Rightarrow> string answer"
  query_MX :: "string \<Rightarrow> mx_rdata answer"
  now :: nat

definition answers_of :: "'a answer \<Rightarrow> error + 'a list" where
  "answers_of a =
     (case a of Answer xs \<Rightarrow> Inr xs | NoAnswer \<Rightarrow> Inr [] | Failure \<Rightarrow> Inl DNSException)"

text \<open>The decimal text of an integer, as an f-string prints it.\<close>

fun str_nat :: "nat \<Rightarrow> string" where
  "str_nat n =
     (if n < 10 then [char_of (48 + n)] else str_nat (n div 10) @ [char_of (48 + n mod 10)])"

declare str_nat.simps [simp del]

definition str_int :: "int \<Rightarrow> string" where
  "str_int i = (if i < 0 then CHR ''-'' # str_nat (nat (- i)) else str_nat (nat i))"

definition mx_token :: "mx_rdata \<Rightarrow> string" where
  "mx_token rdata =
     (let exch = exchange rdata;
          exch' = (if exch \<noteq> [] \<and> last exch = CHR ''.'' then butlast exch else exch)
      in str_int (preference rdata) @ ''/'' @ exch')"

definition inject_dns_lookups :: "world \<Rightarrow> string \<Rightarrow> parsed \<Rightarrow> error + parsed" where
  "inject_dns_lookups w domain parsed_data =
     bind_err (answers_of (query_A w domain)) (\<lambda>a4.
     bind_err (answers_of (query_AAAA w domain)) (\<lambda>a6.
     bind_err (answers_of (query_MX w domain)) (\<lambda>mxs.
     Inr (parsed_data
            (''ip'' \<mapsto> Scalar (VStr (join '', '' (sort (remdups (a4 @ a6))))),
             ''mx'' \<mapsto> Scalar (VStr (join '', '' (sort (remdups (map mx_token mxs))))))))))"

definition inject_dns_placeholder :: "parsed \<Rightarrow> parsed" where
  "inject_dns_placeholder parsed_data =
     parsed_data(''ip'' \<mapsto> Scalar (VStr ''(lookups disabled)''),
                 ''mx'' \<mapsto> Scalar (VStr ''(lookups disabled)''))"

text \<open>
  What the resolver hands over as \<^verbatim>\<open>rdata.address\<close>: the text of an IPv4 or IPv6
  address, which is not empty and is made of hexadecimal digits, dots and colons.
\<close>

definition is_address_text :: "string \<Rightarrow> bool" where
  "is_address_text a = (a \<noteq> [] \<and> set a \<subseteq> set ''0123456789abcdefABCDEF.:'')"

section \<open>The database\<close>

text \<open>
  The three tables of the schema created by \<^verbatim>\<open>_init_db\<close> that the checks use, with the
  two \<^verbatim>\<open>auto_increment\<close> counters. A row of \<^verbatim>\<open>state\<close> keeps its eighteen data columns
  as a function from the column name; \<^verbatim>\<open>NULL\<close> is \<^verbatim>\<open>None\<close>. Values are stored as they
  are given: the length limits and type conversions of the database are not modelled.
  Times are whole seconds.
\<close>

record domain_row =
  d_domain :: string
  d_last_state :: "nat option"
  d_active_checks :: bool
  d_do_dns :: bool
  d_last_checked :: "nat option"
  d_cur_raw_text :: "string option"

record state_row =
  st_id :: nat
  st_domain :: string
  st_check_time :: nat
  st_raw_text :: string
  st_data :: "string \<Rightarrow> pyval"

record changed_row =
  ch_id :: nat
  ch_state :: nat
  ch_info :: string
  ch_val_from :: pyval
  ch_val_to :: pyval

record store =
  domain_tbl :: "domain_row list"
  state_tbl :: "state_row list"
  changed_tbl :: "changed_row list"
  next_state_id :: nat
  next_changed_id :: nat

definition find_domain :: "store \<Rightarrow> string \<Rightarrow> domain_row option" where
  "find_domain s domain = find (\<lambda>r. d_domain r = domain) (domain_tbl s)"

definition find_state :: "store \<Rightarrow> nat \<Rightarrow> state_row option" where
  "find_state s i = find (\<lambda>st. st_id st = i) (state_tbl s)"

definition update_domain :: "store \<Rightarrow> string \<Rightarrow> (domain_row \<Rightarrow> domain_row) \<Rightarrow> store" where
  "update_domain s domain f =
     s\<lparr>domain_tbl := map (\<lambda>r. if d_domain r = domain then f r else r) (domain_tbl s)\<rparr>"

text \<open>
  The statements that the schema can reject raise \<^verbatim>\<open>IntegrityError\<close>: a duplicate
  primary or unique key, a foreign key without its target, the deletion of a row that
  is still referenced.
\<close>

definition insert_domain :: "store \<Rightarrow> string \<Rightarrow> bool \<Rightarrow> error + store" where
  "insert_domain s domain do_dns_db =
     (if find_domain s domain \<noteq> None then Inl IntegrityError
      else Inr (s\<lparr>domain_tbl := domain_tbl s @
                  [\<lparr>d_domain = domain, d_last_state = None, d_active_checks = True,
                    d_do_dns = do_dns_db, d_last_checked = None, d_cur_raw_text = None\<rparr>]\<rparr>))"

definition set_last_state :: "store \<Rightarrow> string \<Rightarrow> nat option \<Rightarrow> error + store" where
  "set_last_state s domain v =
     (if (case v of None \<Rightarrow> False | Some i \<Rightarrow> find_state s i = None) then Inl IntegrityError
      else Inr (update_domain s domain (\<lambda>r. r\<lparr>d_last_state := v\<rparr>)))"

definition delete_changed :: "store \<Rightarrow> nat list \<Rightarrow> store" where
  "delete_changed s ids = s\<lparr>changed_tbl := filter (\<lambda>c. ch_state c \<notin> set ids) (changed_tbl s)\<rparr>"

definition delete_states :: "store \<Rightarrow> nat list \<Rightarrow> error + store" where
  "delete_states s ids =
     (if list_ex (\<lambda>c. ch_state c \<in> set ids) (changed_tbl s)
         \<or> list_ex (\<lambda>r. case d_last_state r of None \<Rightarrow> False | Some i \<Rightarrow> i \<in> set ids)
              (domain_tbl s)
      then Inl IntegrityError
      else Inr (s\<lparr>state_tbl := filter (\<lambda>st. st_id st \<notin> set ids) (state_tbl s)\<rparr>))"

definition delete_domain :: "store \<Rightarrow> string \<Rightarrow> error + store" where
  "delete_domain s domain =
     (if list_ex (\<lambda>st. st_domain st = domain) (state_tbl s) then Inl IntegrityError
      else Inr (s\<lparr>domain_tbl := filter (\<lambda>r. d_domain r \<noteq> domain) (domain_tbl s)\<rparr>))"

section \<open>Storing a check: \<^verbatim>\<open>_store_state\<close>\<close>

text \<open>
  The class attribute \<^verbatim>\<open>datapoints\<close>: the compared keys with their English labels, in
  the order in which the dictionary is written, which is the order in which
  \<^verbatim>\<open>datapoints.items()\<close> yields them.
\<close>

definition datapoints :: "(string \<times> string) list" where
  "datapoints =
     [(''registrar'', ''Registrar''),
      (''whois_server'', ''WHOIS Server''),
      (''referral_url'', ''Referral URL''),
      (''updated_date'', ''Updated Date''),
      (''creation_date'', ''Creation Date''),
      (''expiration_date'', ''Expiration Date''),
      (''name_servers'', ''Nameservers''),
      (''status'', ''Status''),
      (''emails'', ''Emails''),
      (''dnssec'', ''DNSSEC''),
      (''name'', ''Registrant Name''),
      (''org'', ''Registrant Organization''),
      (''address'', ''Registrant Address''),
      (''city'', ''Registrant City''),
      (''state'', ''Registrant State''),
      (''zipcode'', ''Registrant Zipcode''),
      (''ip'', ''IP Address''),
      (''mx'', ''MX Addresses'')]"

text \<open>
  The loop \<^verbatim>\<open>for key, eng in self.datapoints.items()\<close> over a previous state: a triple
  of label, old value and new value is appended for every key whose values differ.
\<close>

fun find_differences ::
  "(string \<Rightarrow> pyval) \<Rightarrow> parsed \<Rightarrow> (string \<times> string) list
     \<Rightarrow> error + (string \<times> pyval \<times> pyval) list" where
  "find_differences prev_state parsed_data [] = Inr []"
| "find_differences prev_state parsed_data ((key, eng) # rest) =
     bind_err (getitem parsed_data key) (\<lambda>v.
     bind_err (find_differences prev_state parsed_data rest) (\<lambda>differences.
     Inr (if py_eq (prev_state key) v then differences
          else (eng, prev_state key, v) # differences)))"

text \<open>
  The first part of \<^verbatim>\<open>_store_state\<close>: the pair of \<^verbatim>\<open>store_state\<close> and
  \<^verbatim>\<open>differences\<close>. Without a domain row or without a last state the new state is
  always stored, with no differences. A last state that does not exist makes
  \<^verbatim>\<open>prev_state\<close> \<^verbatim>\<open>None\<close>, and subscripting it raises \<^verbatim>\<open>TypeError\<close>.
\<close>

definition compare_with_last ::
  "store \<Rightarrow> string \<Rightarrow> parsed \<Rightarrow> error + (bool \<times> (string \<times> pyval \<times> pyval) list)" where
  "compare_with_last s domain parsed_data =
     (case Option.bind (find_domain s domain) d_last_state of
        None \<Rightarrow> Inr (True, [])
      | Some last_state \<Rightarrow>
          (case find_state s last_state of
             None \<Rightarrow> Inl TypeError
           | Some prev_state \<Rightarrow>
               bind_err (find_differences (st_data prev_state) parsed_data datapoints)
                 (\<lambda>differences. Inr (differences \<noteq> [], differences))))"

definition row_data :: "string list \<Rightarrow> pyval list \<Rightarrow> string \<Rightarrow> pyval" where
  "row_data keys vals =
     (\<lambda>k. case map_of (zip keys vals) k of None \<Rightarrow> Scalar VNone | Some v \<Rightarrow> v)"

text \<open>
  \<^verbatim>\<open>insert into state\<close>: the eighteen values are read from the dictionary in the order
  of the statement, then the row gets the next id, which is \<^verbatim>\<open>lastrowid\<close>.
\<close>

definition insert_state ::
  "store \<Rightarrow> nat \<Rightarrow> string \<Rightarrow> string \<Rightarrow> parsed \<Rightarrow> error + (nat \<times> store)" where
  "insert_state s t domain check_data parsed_data =
     bind_err (map_err (getitem parsed_data) (map fst datapoints)) (\<lambda>vals.
     if find_domain s domain = None then Inl IntegrityError
     else if list_ex (\<lambda>st. st_domain st = domain \<and> st_check_time st = t) (state_tbl s)
       then Inl IntegrityError
     else Inr (next_state_id s,
               s\<lparr>state_tbl := state_tbl s @
                    [\<lparr>st_id = next_state_id s, st_domain = domain, st_check_time = t,
                      st_raw_text = check_data,
                      st_data = row_data (map fst datapoints) vals\<rparr>],
                 next_state_id := next_state_id s + 1\<rparr>))"

fun insert_changed :: "store \<Rightarrow> nat \<Rightarrow> (string \<times> pyval \<times> pyval) list \<Rightarrow> error + store" where
  "insert_changed s new_state_id [] = Inr s"
| "insert_changed s new_state_id ((info, val_from, val_to) # rest) =
     (if find_state s new_state_id = None then Inl IntegrityError
      else if list_ex (\<lambda>c. ch_state c = new_state_id \<and> ch_info c = info) (changed_tbl s)
        then Inl IntegrityError
      else insert_changed
             (s\<lparr>changed_tbl := changed_tbl s @
                  [\<lparr>ch_id = next_changed_id s, ch_state = new_state_id, ch_info = info,
                    ch_val_from = val_from, ch_val_to = val_to\<rparr>],
                next_changed_id := next_changed_id s + 1\<rparr>)
             new_state_id rest)"

text \<open>
  \<^verbatim>\<open>_store_state\<close> at time \<open>t\<close>, the value of both calls of \<^verbatim>\<open>now()\<close>. All statements
  belong to one transaction, committed at the end: an exception leaves the database as
  it was, so the result is either an error or the returned flag with the committed
  database.
\<close>

definition store_state ::
  "nat \<Rightarrow> store \<Rightarrow> string \<Rightarrow> string \<Rightarrow> parsed \<Rightarrow> bool \<Rightarrow> error + (bool \<times> store)" where
  "store_state t s domain check_data parsed_data do_dns =
     bind_err (compare_with_last s domain parsed_data) (\<lambda>(store_st, differences).
     let s1 = update_domain s domain
                (\<lambda>r. r\<lparr>d_cur_raw_text := Some check_data, d_last_checked := Some t,
                       d_do_dns := do_dns\<rparr>)
     in if store_st then
          bind_err (insert_state s1 t domain check_data parsed_data) (\<lambda>(new_state_id, s2).
          bind_err (set_last_state s2 domain (Some new_state_id)) (\<lambda>s3.
          bind_err (insert_changed s3 new_state_id differences) (\<lambda>s4.
          Inr (True, s4))))
        else Inr (False, s1))"

subsection \<open>What a stored check is expected to add\<close>

text \<open>
  The differences between an old and a new record as the specification words them: the
  tracked fields in their declared order, and for each one whose values are not equal
  its label with the old and the new value.
\<close>

definition diff_spec :: "(string \<Rightarrow> pyval) \<Rightarrow> (string \<Rightarrow> pyval) \<Rightarrow> (string \<times> pyval \<times> pyval) list" where
  "diff_spec old new =
     map (\<lambda>(key, eng). (eng, old key, new key))
       (filter (\<lambda>(key, eng). \<not> py_eq (old key) (new key)) datapoints)"

text \<open>
  The rows that the loop \<^verbatim>\<open>for info, val_from, val_to in differences\<close> adds to
  \<^verbatim>\<open>changed\<close> for the state \<open>new_state_id\<close>, when the first free id is \<open>first_id\<close>.
\<close>

definition changed_rows :: "nat \<Rightarrow> nat \<Rightarrow> (string \<times> pyval \<times> pyval) list \<Rightarrow> changed_row list" where
  "changed_rows new_state_id first_id differences =
     map (\<lambda>(i, (info, val_from, val_to)).
            \<lparr>ch_id = i, ch_state = new_state_id, ch_info = info,
             ch_val_from = val_from, ch_val_to = val_to\<rparr>)
       (enumerate first_id differences)"

section \<open>Purging a domain\<close>

definition have_domain :: "store \<Rightarrow> string \<Rightarrow> bool" where
  "have_domain s domain = (find_domain s domain \<noteq> None)"

definition get_state_ids :: "store \<Rightarrow> string \<Rightarrow> (nat \<times> nat) list" where
  "get_state_ids s domain =
     map (\<lambda>st. (st_id st, st_check_time st))
       (sort_key st_check_time (filter (\<lambda>st. st_domain st = domain) (state_tbl s)))"

definition purge_domain :: "store \<Rightarrow> string \<Rightarrow> error + store" where
  "purge_domain s domain =
     (if \<not> have_domain s domain then Inl (SystemExit 1)
      else
        let states = get_state_ids s domain;
            state_in_list = map fst states;
            s1 = (if states \<noteq> [] then delete_changed s state_in_list else s)
        in bind_err (set_last_state s1 domain None) (\<lambda>s2.
           bind_err (if states \<noteq> [] then delete_states s2 state_in_list else Inr s2) (\<lambda>s3.
           delete_domain s3 domain)))"

section \<open>Checking a domain\<close>

datatype DNSBehavior = DOMAIN_DEFAULT | FORCE_YES | FORCE_NO

record app =
  dns_behavior :: DNSBehavior
  max_retries :: int

text \<open>
  The retry loop of \<^verbatim>\<open>check_domain\<close>. \<open>lookup n\<close> is the text that the \<open>n\<close>-th call of
  \<^verbatim>\<open>client.whois_lookup\<close> returns; \<open>check_data\<close> starts as \<^verbatim>\<open>None\<close>. The pauses
  between attempts are not modelled.
\<close>

function fetch :: "(nat \<Rightarrow> string) \<Rightarrow> int \<Rightarrow> int \<Rightarrow> string option \<Rightarrow> string option" where
  "fetch lookup retries attempts check_data =
     (if attempts < retries then
        (if attempts + 1 < retries
            \<and> contains ''Socket not responding'' (lookup (nat (attempts + 1)))
         then fetch lookup retries (attempts + 1) (Some (lookup (nat (attempts + 1))))
         else Some (lookup (nat (attempts + 1))))
      else check_data)"
  by pat_completeness auto

termination
  by (relation "measure (\<lambda>(lookup, retries, attempts, check_data). nat (retries - attempts))")
    auto

declare fetch.simps [simp del]

text \<open>
  The first block of \<^verbatim>\<open>check_domain\<close>: an unknown domain is inserted and the insertion
  committed; the result is the database and \<^verbatim>\<open>do_dns\<close>.
\<close>

definition add_domain :: "DNSBehavior \<Rightarrow> store \<Rightarrow> string \<Rightarrow> error + (store \<times> bool)" where
  "add_domain behavior s domain =
     (case find_domain s domain of
        None \<Rightarrow>
          bind_err (insert_domain s domain (behavior \<noteq> FORCE_NO))
            (\<lambda>s1. Inr (s1, behavior \<noteq> FORCE_NO))
      | Some row \<Rightarrow>
          Inr (s, if behavior = FORCE_YES then True
                  else if behavior = FORCE_NO then False
                  else d_do_dns row))"

text \<open>
  The block \<^verbatim>\<open>if check_data is None\<close>: the text is fetched unless the caller passed
  one.
\<close>

definition fetch_check_data :: "app \<Rightarrow> world \<Rightarrow> string \<Rightarrow> string option \<Rightarrow> string option" where
  "fetch_check_data a w domain check_data =
     (case check_data of
        None \<Rightarrow> fetch (whois_lookup w domain) (max_retries a) 0 None
      | Some text \<Rightarrow> Some text)"

text \<open>
  \<^verbatim>\<open>check_domain\<close>. The result pairs what the call returns or raises with the database
  as committed when it ends. Communication errors inside \<^verbatim>\<open>whois_lookup\<close> come back as
  text, which is what the loop inspects.
\<close>

definition check_domain ::
  "app \<Rightarrow> world \<Rightarrow> store \<Rightarrow> string \<Rightarrow> string option \<Rightarrow> (error + bool) \<times> store" where
  "check_domain a w s domain check_data =
     (case add_domain (dns_behavior a) s domain of
        Inl e \<Rightarrow> (Inl e, s)
      | Inr (s1, do_dns) \<Rightarrow>
          (case fetch_check_data a w domain check_data of
             None \<Rightarrow> (Inl TypeError, s1)
           | Some text \<Rightarrow>
               if contains ''Socket not responding'' text then (Inr True, s1)
               else
                 (case bind_err (whois_load w domain text) (\<lambda>parsed_data.
                       bind_err (clean_parsed_data parsed_data) (\<lambda>cleaned.
                       bind_err (if do_dns then inject_dns_lookups w domain cleaned
                                 else Inr (inject_dns_placeholder cleaned)) (\<lambda>full.
                       store_state (now w) s1 domain text full do_dns))) of
                    Inl e \<Rightarrow> (Inl e, s1)
                  | Inr (changed, s2) \<Rightarrow> (Inr changed, s2))))"

section \<open>Consistency of the database\<close>

text \<open>
  What the schema enforces (primary keys, the two unique indexes, the three foreign
  keys, ids below the \<^verbatim>\<open>auto_increment\<close> counters), and what the program maintains on
  top of it: the last state of a domain is a state of that domain.
\<close>

definition wf_store :: "store \<Rightarrow> bool" where
  "wf_store s =
     (distinct (map d_domain (domain_tbl s))
      \<and> distinct (map st_id (state_tbl s))
      \<and> distinct (map (\<lambda>st. (st_domain st, st_check_time st)) (state_tbl s))
      \<and> distinct (map (\<lambda>c. (ch_state c, ch_info c)) (changed_tbl s))
      \<and> (\<forall>st \<in> set (state_tbl s). st_id st < next_state_id s)
      \<and> (\<forall>st \<in> set (state_tbl s). st_domain st \<in> d_domain ` set (domain_tbl s))
      \<and> (\<forall>c \<in> set (changed_tbl s). ch_state c \<in> st_id ` set (state_tbl s))
      \<and> (\<forall>r \<in> set (domain_tbl s). \<forall>i. d_last_state r = Some i \<longrightarrow>
            (\<exists>st \<in> set (state_tbl s). st_id st = i \<and> st_domain st = d_domain r)))"

text \<open>The database right after \<^verbatim>\<open>_init_db\<close> has created the tables.\<close>

definition empty_store :: store where
  "empty_store =
     \<lparr>domain_tbl = [], state_tbl = [], changed_tbl = [], next_state_id = 1,
      next_changed_id = 1\<rparr>"

section \<open>Example inputs\<close>

text \<open>
  A parsed lookup with the keys that the normalisation reads; the values of
  \<^verbatim>\<open>updated_date\<close> and \<^verbatim>\<open>emails\<close> are left open.
\<close>

definition example_date :: "nat \<Rightarrow> nat \<Rightarrow> int option \<Rightarrow> datetime" where
  "example_date h us tz =
     \<lparr>year = 2020, month = 1, day = 1, hour = h, minute = 0, second = 0, microsecond = us,
      tzinfo = tz\<rparr>"

definition example_raw :: "pyval \<Rightarrow> pyval \<Rightarrow> parsed" where
  "example_raw updated emails =
     [''updated_date'' \<mapsto> updated,
      ''creation_date'' \<mapsto> VList [VStr ''1999-03-04T05:06:08'', VStr ''1999-03-04T05:06:07''],
      ''expiration_date'' \<mapsto> Scalar (VDate (example_date 0 0 None)),
      ''name_servers'' \<mapsto> VList [VStr ''NS.X''],
      ''status'' \<mapsto> Scalar (VStr ''ok''),
      ''emails'' \<mapsto> emails]"

text \<open>
  A normalised lookup with all eighteen compared keys, for a given registrar, ip and
  mx, and the data columns of a state that recorded it.
\<close>

definition example_record :: "string \<Rightarrow> string \<Rightarrow> string \<Rightarrow> parsed" where
  "example_record registrar ip mx =
     map_of
       [(''registrar'', Scalar (VStr registrar)),
        (''whois_server'', Scalar (VStr ''whois.example.net'')),
        (''referral_url'', Scalar VNone),
        (''updated_date'', Scalar (VDate (example_date 12 0 None))),
        (''creation_date'', Scalar (VDate (example_date 0 0 None))),
        (''expiration_date'', Scalar (VDate (example_date 23 0 None))),
        (''name_servers'', Scalar (VStr ''ns1.example.net, ns2.example.net'')),
        (''status'', Scalar (VStr ''ok'')),
        (''emails'', Scalar (VStr ''a@x, b@x'')),
        (''dnssec'', Scalar (VStr ''unsigned'')),
        (''name'', Scalar VNone),
        (''org'', Scalar (VStr ''Example Org'')),
        (''address'', Scalar VNone),
        (''city'', Scalar VNone),
        (''state'', Scalar (VStr ''CA'')),
        (''zipcode'', Scalar VNone),
        (''ip'', Scalar (VStr ip)),
        (''mx'', Scalar (VStr mx))]"

definition example_cols :: "string \<Rightarrow> string \<Rightarrow> string \<Rightarrow> string \<Rightarrow> pyval" where
  "example_cols registrar ip mx =
     (\<lambda>k. case example_record registrar ip mx k of None \<Rightarrow> Scalar VNone | Some v \<Rightarrow> v)"

text \<open>
  A database with two domains: \<^verbatim>\<open>example.com\<close>, checked once at time 100 with DNS
  lookups disabled, and \<^verbatim>\<open>new.example\<close>, added but not yet checked.
\<close>

definition example_store :: store where
  "example_store =
     \<lparr>domain_tbl =
        [\<lparr>d_domain = ''example.com'', d_last_state = Some 1, d_active_checks = True,
          d_do_dns = False, d_last_checked = Some 100, d_cur_raw_text = Some ''raw text''\<rparr>,
         \<lparr>d_domain = ''new.example'', d_last_state = None, d_active_checks = True,
          d_do_dns = True, d_last_checked = None, d_cur_raw_text = None\<rparr>],
      state_tbl =
        [\<lparr>st_id = 1, st_domain = ''example.com'', st_check_time = 100,
          st_raw_text = ''raw text'',
          st_data = example_cols ''Registrar A'' ''(lookups disabled)'' ''(lookups disabled)''\<rparr>],
      changed_tbl = [],
      next_state_id = 2,
      next_changed_id = 1\<rparr>"

text \<open>
  An application with three attempts per lookup, and a world whose whois server never
  answers: every call of \<^verbatim>\<open>whois_lookup\<close> comes back with the text of the socket error.
\<close>

definition example_app :: "int \<Rightarrow> app" where
  "example_app retries = \<lparr>dns_behavior = DOMAIN_DEFAULT, max_retries = retries\<rparr>"

definition silent_world :: world where
  "silent_world =
     \<lparr>whois_lookup = (\<lambda>domain n. ''Socket not responding: timed out''),
      whois_load = (\<lambda>domain text. Inl PywhoisError),
      query_A = (\<lambda>domain. Failure),
      query_AAAA = (\<lambda>domain. Failure),
      query_MX = (\<lambda>domain. Failure),
      now = 200\<rparr>"

text \<open>
  A world whose whois server and resolver answer for every domain: the first lookup
  returns a text, which python-whois parses into the same raw record.
\<close>

definition example_whois :: parsed where
  "example_whois =
     map_of
       [(''registrar'', Scalar (VStr ''Registrar A'')),
        (''whois_server'', Scalar VNone),
        (''referral_url'', Scalar VNone),
        (''updated_date'', Scalar (VDate (example_date 12 0 None))),
        (''creation_date'', Scalar (VDate (example_date 0 0 None))),
        (''expiration_date'', Scalar (VDate (example_date 23 0 None))),
        (''name_servers'', VList [VStr ''NS.X'']),
        (''status'', Scalar (VStr ''ok'')),
        (''emails'', Scalar VNone),
        (''dnssec'', Scalar VNone),
        (''name'', Scalar VNone),
        (''org'', Scalar VNone),
        (''address'', Scalar VNone),
        (''city'', Scalar VNone),
        (''state'', Scalar VNone),
        (''zipcode'', Scalar VNone)]"

definition resolving_world :: world where
  "resolving_world =
     \<lparr>whois_lookup = (\<lambda>domain n. ''Domain Name: EXAMPLE''),
      whois_load = (\<lambda>domain text. Inr example_whois),
      query_A = (\<lambda>domain. Answer [''192.0.2.1'']),
      query_AAAA = (\<lambda>domain. NoAnswer),
      query_MX = (\<lambda>domain. Answer [\<lparr>preference = 10, exchange = ''mail.example.com.''\<rparr>]),
      now = 200\<rparr>"

section \<open>Properties of the regular expressions\<close>

lemma status_lazy_no_newline:
  "CHR 0x0A \<notin> set s \<Longrightarrow> \<exists>g. status_lazy acc s = Some g"
  by (induction s arbitrary: acc) (auto simp: status_tail_def at_end_def)

text \<open>
  Claim C10. A status string without a newline character always matches
  \<^verbatim>\<open>status_url_re\<close>: \<^verbatim>\<open>re.match\<close> returns a match object, the loop body takes the first
  branch and adds the text of the group \<^verbatim>\<open>status\<close>; the branch that adds the raw status
  is not taken, and no exception is raised.
\<close>

theorem status_url_re_always_matches:
  "CHR 0x0A \<notin> set s \<Longrightarrow>
     \<exists>g. status_url_re_match s = Some g \<and> strip_status (VStr s) = Inr g"
proof -
  assume "CHR 0x0A \<notin> set s"
  then obtain g where "status_lazy [] s = Some g"
    using status_lazy_no_newline by blast
  then show ?thesis
    by (simp add: status_url_re_match_def strip_status_def)
qed

theorem status_url_re_always_matches_witness:
  "CHR 0x0A \<notin> set ''ok https://icann.org/epp#ok''
     \<and> (\<exists>g. status_url_re_match ''ok https://icann.org/epp#ok'' = Some g
            \<and> strip_status (VStr ''ok https://icann.org/epp#ok'') = Inr g)"
proof -
  have h: "CHR 0x0A \<notin> set ''ok https://icann.org/epp#ok''" by simp
  show ?thesis using h status_url_re_always_matches [OF h] by blast
qed

section \<open>Properties of the normalisation\<close>

lemma bind_err_Inr_iff: "bind_err m f = Inr y \<longleftrightarrow> (\<exists>x. m = Inr x \<and> f x = Inr y)"
  by (cases m) (simp_all add: bind_err_def)

lemma bind_err_Inr [simp]: "bind_err (Inr x) f = f x"
  by (simp add: bind_err_def)

lemma bind_err_Inl [simp]: "bind_err (Inl e) f = Inl e"
  by (simp add: bind_err_def)

lemma str_of_Inr_iff: "str_of x = Inr a \<longleftrightarrow> x = VStr a"
  by (cases x) (simp_all add: str_of_def)

lemma map_err_str_of: "map_err str_of xs = Inr es \<longleftrightarrow> xs = map VStr es"
proof (induction xs arbitrary: es)
  case Nil
  then show ?case by auto
next
  case (Cons x xs)
  show ?case
    by (cases es) (auto simp: bind_err_Inr_iff str_of_Inr_iff Cons.IH)
qed

text \<open>The defining equations needed to run the normalisation on a concrete lookup.\<close>

lemmas clean_defs =
  clean_parsed_data_def date_fields_def clean_date_field_def reduce_dates_def as_list_def
  getitem_def date_t_re_match_def digits_then_def digits_plus_def expect_def is_digit_def
  at_end_def int_of_digits_def digit_val_def mk_datetime_def days_in_month_def is_leap_def
  py_max_def py_min_def dt_lt_def dt_key_def clean_name_servers_def iterate_def lower_of_def
  lower_def lower_char_def clean_status_def strip_status_def status_url_re_match_def
  status_tail_def url_group_def http_rest_def startswith_def paren_end_def is_space_def
  clean_emails_def str_of_def join_def

text \<open>Each step of the normalisation writes one key and leaves the others alone.\<close>

lemma clean_date_field_other:
  "clean_date_field key func pd = Inr p \<Longrightarrow> k \<noteq> key \<Longrightarrow> p k = pd k"
  by (auto simp: clean_date_field_def bind_err_Inr_iff)

lemma clean_date_fields_other:
  "clean_date_fields fs pd = Inr p \<Longrightarrow> k \<notin> set (map fst fs) \<Longrightarrow> p k = pd k"
proof (induction fs arbitrary: pd)
  case Nil
  then show ?case by simp
next
  case (Cons f fs)
  obtain key func where f: "f = (key, func)" by (cases f)
  from Cons.prems obtain p1 where p1: "clean_date_field key func pd = Inr p1"
    and rest: "clean_date_fields fs p1 = Inr p"
    by (auto simp: f bind_err_Inr_iff)
  have "p k = p1 k" using Cons.IH [OF rest] Cons.prems(2) by simp
  also have "p1 k = pd k" using clean_date_field_other [OF p1] Cons.prems(2) by (simp add: f)
  finally show ?case .
qed

lemma clean_name_servers_other:
  "clean_name_servers pd = Inr p \<Longrightarrow> k \<noteq> ''name_servers'' \<Longrightarrow> p k = pd k"
  by (auto simp: clean_name_servers_def bind_err_Inr_iff)

lemma clean_status_other:
  "clean_status pd = Inr p \<Longrightarrow> k \<noteq> ''status'' \<Longrightarrow> p k = pd k"
  by (auto simp: clean_status_def bind_err_Inr_iff)

lemma emails_before_last_step:
  assumes "clean_parsed_data pd = Inr p"
  shows "\<exists>p5. clean_emails p5 = Inr p \<and> p5 ''emails'' = pd ''emails''"
proof -
  from assms obtain p3 p4 p5 where
    a: "clean_date_fields date_fields pd = Inr p3" and
    b: "clean_name_servers p3 = Inr p4" and
    c: "clean_status p4 = Inr p5" and
    d: "clean_emails p5 = Inr p"
    by (auto simp: clean_parsed_data_def bind_err_Inr_iff)
  have "p3 ''emails'' = pd ''emails''"
    using clean_date_fields_other [OF a, of "''emails''"] by (simp add: date_fields_def)
  moreover have "p4 ''emails'' = p3 ''emails''"
    using clean_name_servers_other [OF b, of "''emails''"] by simp
  moreover have "p5 ''emails'' = p4 ''emails''"
    using clean_status_other [OF c, of "''emails''"] by simp
  ultimately show ?thesis using d by auto
qed

lemma sort_cong_mset: "mset es' = mset es \<Longrightarrow> sort es' = sort (es :: string list)"
  by (metis properties_for_sort sorted_sort mset_sort)

text \<open>
  Claim C1 fails as stated: the emails are sorted and joined, but a duplicate stays. The
  lists \<^verbatim>\<open>['a@x', 'a@x']\<close> and \<^verbatim>\<open>['a@x']\<close> hold the same set of emails and normalise to
  different strings.
\<close>

theorem emails_duplicates_kept:
  "result_field ''emails''
     (clean_parsed_data (example_raw (Scalar (VDate (example_date 12 0 None)))
        (VList [VStr ''a@x'', VStr ''a@x''])))
     = Inr (Scalar (VStr ''a@x, a@x''))
   \<and> result_field ''emails''
     (clean_parsed_data (example_raw (Scalar (VDate (example_date 12 0 None)))
        (VList [VStr ''a@x''])))
     = Inr (Scalar (VStr ''a@x''))
   \<and> set [''a@x'', ''a@x''] = set [''a@x'']
   \<and> join '', '' (sort (remdups [''a@x'', ''a@x''])) = ''a@x''"
  by (simp add: result_field_def example_raw_def example_date_def clean_defs)

text \<open>
  Claim C1, amended. When the normalisation succeeds on a lookup whose \<^verbatim>\<open>emails\<close> is a
  list, the items are strings and the result is these strings sorted and joined with
  a comma and a space, every occurrence kept; so two lists with the same emails the
  same number of times, in any order, give the same string. A scalar \<^verbatim>\<open>emails\<close> is
  not changed.
\<close>

theorem emails_sorted_joined:
  assumes "clean_parsed_data pd = Inr p"
  shows "(\<forall>xs. pd ''emails'' = Some (VList xs) \<longrightarrow>
            (\<exists>es. xs = map VStr es
               \<and> p ''emails'' = Some (Scalar (VStr (join '', '' (sort es))))
               \<and> (\<forall>es'. mset es' = mset es \<longrightarrow>
                     join '', '' (sort es') = join '', '' (sort es))))
       \<and> (\<forall>x. pd ''emails'' = Some (Scalar x) \<longrightarrow> p ''emails'' = Some (Scalar x))"
proof -
  from emails_before_last_step [OF assms] obtain p5 where
    d: "clean_emails p5 = Inr p" and e: "p5 ''emails'' = pd ''emails''" by blast
  show ?thesis
  proof (intro conjI allI impI)
    fix xs assume "pd ''emails'' = Some (VList xs)"
    with d e obtain es where "map_err str_of xs = Inr es"
      and "p = p5(''emails'' \<mapsto> Scalar (VStr (join '', '' (sort es))))"
      by (auto simp: clean_emails_def getitem_def bind_err_Inr_iff)
    then have "xs = map VStr es"
      and "p ''emails'' = Some (Scalar (VStr (join '', '' (sort es))))"
      by (simp_all add: map_err_str_of)
    moreover have "\<forall>es'. mset es' = mset es \<longrightarrow>
                     join '', '' (sort es') = join '', '' (sort es)"
      using sort_cong_mset by metis
    ultimately show "\<exists>es. xs = map VStr es
               \<and> p ''emails'' = Some (Scalar (VStr (join '', '' (sort es))))
               \<and> (\<forall>es'. mset es' = mset es \<longrightarrow>
                     join '', '' (sort es') = join '', '' (sort es))"
      by blast
  next
    fix x assume "pd ''emails'' = Some (Scalar x)"
    with d e show "p ''emails'' = Some (Scalar x)"
      by (auto simp: clean_emails_def getitem_def bind_err_Inr_iff)
  qed
qed

theorem emails_sorted_joined_witness:
  "\<exists>p. clean_parsed_data (example_raw (Scalar (VDate (example_date 12 0 None)))
            (VList [VStr ''b@x'', VStr ''a@x'', VStr ''b@x''])) = Inr p
       \<and> p ''emails'' = Some (Scalar (VStr ''a@x, b@x, b@x''))"
proof -
  define pd where "pd = example_raw (Scalar (VDate (example_date 12 0 None)))
            (VList [VStr ''b@x'', VStr ''a@x'', VStr ''b@x''])"
  have "\<exists>p. clean_parsed_data pd = Inr p"
    by (simp add: pd_def example_raw_def example_date_def clean_defs)
  then obtain p where p: "clean_parsed_data pd = Inr p" by blast
  have e: "pd ''emails'' = Some (VList [VStr ''b@x'', VStr ''a@x'', VStr ''b@x''])"
    by (simp add: pd_def example_raw_def)
  from emails_sorted_joined [OF p, THEN conjunct1, rule_format, OF e] obtain es where
    "[VStr ''b@x'', VStr ''a@x'', VStr ''b@x''] = map VStr es"
    and r: "p ''emails'' = Some (Scalar (VStr (join '', '' (sort es))))"
    by (elim exE conjE)
  then have "es = [''b@x'', ''a@x'', ''b@x'']" by auto
  with r have "p ''emails'' = Some (Scalar (VStr ''a@x, b@x, b@x''))"
    by (simp add: join_def)
  with p show ?thesis unfolding pd_def by blast
qed

subsection \<open>The date loop\<close>

lemma clean_emails_other:
  "clean_emails pd = Inr p \<Longrightarrow> k \<noteq> ''emails'' \<Longrightarrow> p k = pd k"
  by (cases "pd ''emails''"; cases "the (pd ''emails'')")
     (auto simp: clean_emails_def getitem_def bind_err_Inr_iff)














subsection \<open>Time zones\<close>

text \<open>
  Claim C2 fails as stated. 12:00:00 at offset +02:00 and 10:00:00 at offset +00:00
  are the same instant, but the first normalises to 12:00:00 and the second to
  10:00:00, and 12:00:00 read as UTC is not the instant of the first value: the civil
  fields are copied, not converted.
\<close>

theorem aware_dates_not_converted:
  "utc_micros (example_date 12 0 (Some 7200)) = utc_micros (example_date 10 0 (Some 0))
   \<and> result_field ''updated_date''
        (clean_parsed_data
           (example_raw (Scalar (VDate (example_date 12 0 (Some 7200)))) (Scalar VNone)))
      = Inr (Scalar (VDate (example_date 12 0 None)))
   \<and> result_field ''updated_date''
        (clean_parsed_data
           (example_raw (Scalar (VDate (example_date 10 0 (Some 0)))) (Scalar VNone)))
      = Inr (Scalar (VDate (example_date 10 0 None)))
   \<and> example_date 12 0 None \<noteq> example_date 10 0 None
   \<and> utc_micros (example_date 12 0 None) \<noteq> utc_micros (example_date 12 0 (Some 7200))"
proof (intro conjI)
  show "utc_micros (example_date 12 0 (Some 7200)) = utc_micros (example_date 10 0 (Some 0))"
    by (simp add: utc_micros_def civil_micros_def example_date_def)
  show "result_field ''updated_date''
        (clean_parsed_data
           (example_raw (Scalar (VDate (example_date 12 0 (Some 7200)))) (Scalar VNone)))
      = Inr (Scalar (VDate (example_date 12 0 None)))"
    by (simp add: result_field_def example_raw_def example_date_def clean_defs)
  show "result_field ''updated_date''
        (clean_parsed_data
           (example_raw (Scalar (VDate (example_date 10 0 (Some 0)))) (Scalar VNone)))
      = Inr (Scalar (VDate (example_date 10 0 None)))"
    by (simp add: result_field_def example_raw_def example_date_def clean_defs)
  show "example_date 12 0 None \<noteq> example_date 10 0 None"
    by (simp add: example_date_def)
  show "utc_micros (example_date 12 0 None) \<noteq> utc_micros (example_date 12 0 (Some 7200))"
    by (simp add: utc_micros_def civil_micros_def example_date_def)
qed

text \<open>
  Claim C2, amended. A datetime in a date field always normalises to a naive datetime
  with zero microseconds and the same year, month, day, hour, minute and second as
  written in the value. A naive value is otherwise kept as it is. For an aware value
  the offset is dropped without conversion: read as UTC, the result is the instant of
  the value shifted by its offset (and cut to the whole second), so it is the UTC
  civil time exactly when the offset is zero.
\<close>

theorem clean_date_keeps_civil_fields:
  "\<exists>d'. clean_date (VDate d) = Inr d'
       \<and> tzinfo d' = None \<and> microsecond d' = 0
       \<and> year d' = year d \<and> month d' = month d \<and> day d' = day d
       \<and> hour d' = hour d \<and> minute d' = minute d \<and> second d' = second d
       \<and> (tzinfo d = None \<longrightarrow> d' = d\<lparr>microsecond := 0\<rparr>)
       \<and> (\<forall>off. tzinfo d = Some off \<longrightarrow>
             utc_micros d' = utc_micros d + off * 1000000 - int (microsecond d))"
  by (cases "tzinfo d") (simp_all add: utc_micros_def civil_micros_def)

theorem clean_date_keeps_civil_fields_witness:
  "clean_date (VDate (example_date 12 5 (Some 7200))) = Inr (example_date 12 0 None)
   \<and> utc_micros (example_date 12 0 None)
       = utc_micros (example_date 12 5 (Some 7200)) + 7200 * 1000000 - 5"
proof -
  from clean_date_keeps_civil_fields [of "example_date 12 5 (Some 7200)"] obtain d' where
    a: "clean_date (VDate (example_date 12 5 (Some 7200))) = Inr d'"
    and b: "\<forall>off. tzinfo (example_date 12 5 (Some 7200)) = Some off \<longrightarrow>
             utc_micros d' = utc_micros (example_date 12 5 (Some 7200)) + off * 1000000
                              - int (microsecond (example_date 12 5 (Some 7200)))"
    by (elim exE conjE)
  have d': "d' = example_date 12 0 None"
    using a by (simp add: example_date_def)
  have "tzinfo (example_date 12 5 (Some 7200)) = Some 7200"
    and "microsecond (example_date 12 5 (Some 7200)) = 5"
    by (simp_all add: example_date_def)
  with b have "utc_micros d' = utc_micros (example_date 12 5 (Some 7200)) + 7200 * 1000000 - 5"
    by simp
  with a d' show ?thesis by simp
qed

section \<open>Properties of the database operations\<close>

lemma find_differences_eq:
  "\<forall>(key, eng) \<in> set dps. pd key = Some (cur key) \<Longrightarrow>
     find_differences prev pd dps =
       Inr (map (\<lambda>(key, eng). (eng, prev key, cur key))
              (filter (\<lambda>(key, eng). \<not> py_eq (prev key) (cur key)) dps))"
  by (induction dps) (auto simp: getitem_def)

lemma map_err_getitem:
  "\<forall>key \<in> set keys. pd key = Some (cur key) \<Longrightarrow>
     map_err (getitem pd) keys = Inr (map cur keys)"
  by (induction keys) (auto simp: getitem_def)

lemma row_data_map: "k \<in> set keys \<Longrightarrow> row_data keys (map cur keys) k = cur k"
  by (simp add: row_data_def map_of_zip_map)

lemma find_map_domain:
  assumes "\<And>r. d_domain (f r) = d_domain r"
  shows "find (\<lambda>r. d_domain r = d') (map (\<lambda>r. if d_domain r = d then f r else r) rows)
           = map_option (\<lambda>r. if d_domain r = d then f r else r) (find (\<lambda>r. d_domain r = d') rows)"
  using assms by (induction rows) auto

lemma find_domain_update:
  assumes "\<And>r. d_domain (f r) = d_domain r"
  shows "find_domain (update_domain s d f) d'
           = map_option (\<lambda>r. if d_domain r = d then f r else r) (find_domain s d')"
  using find_map_domain [of f d' d "domain_tbl s"] assms
  by (simp add: find_domain_def update_domain_def)

lemma find_state_update [simp]: "find_state (update_domain s d f) i = find_state s i"
  by (simp add: find_state_def update_domain_def)

lemma find_append_last: "P x \<Longrightarrow> find P (xs @ [x]) \<noteq> None"
  by (induction xs) auto

lemma insert_changed_ok:
  assumes "find_state s nid \<noteq> None"
    and "\<forall>c \<in> set (changed_tbl s). ch_state c = nid \<longrightarrow> ch_info c \<notin> set (map fst ds)"
    and "distinct (map fst ds)"
  shows "insert_changed s nid ds =
           Inr (s\<lparr>changed_tbl := changed_tbl s @ changed_rows nid (next_changed_id s) ds,
                  next_changed_id := next_changed_id s + length ds\<rparr>)"
  using assms
proof (induction ds arbitrary: s)
  case Nil
  then show ?case by (simp add: changed_rows_def)
next
  case (Cons d ds)
  obtain info val_from val_to where d: "d = (info, val_from, val_to)" by (cases d)
  define s' where "s' = s\<lparr>changed_tbl := changed_tbl s @
                  [\<lparr>ch_id = next_changed_id s, ch_state = nid, ch_info = info,
                    ch_val_from = val_from, ch_val_to = val_to\<rparr>],
                next_changed_id := next_changed_id s + 1\<rparr>"
  have fs: "find_state s' nid \<noteq> None"
    using Cons.prems(1) by (simp add: s'_def find_state_def)
  have cl: "\<forall>c \<in> set (changed_tbl s'). ch_state c = nid \<longrightarrow> ch_info c \<notin> set (map fst ds)"
    using Cons.prems(2,3) by (auto simp: s'_def d)
  have di: "distinct (map fst ds)" using Cons.prems(3) by simp
  have noclash: "\<not> list_ex (\<lambda>c. ch_state c = nid \<and> ch_info c = info) (changed_tbl s)"
    using Cons.prems(2) by (auto simp: d list_ex_iff)
  have "insert_changed s nid (d # ds) = insert_changed s' nid ds"
    using Cons.prems(1) noclash by (auto simp: d s'_def)
  also have "\<dots> = Inr (s'\<lparr>changed_tbl := changed_tbl s' @ changed_rows nid (next_changed_id s') ds,
                  next_changed_id := next_changed_id s' + length ds\<rparr>)"
    by (rule Cons.IH [OF fs cl di])
  also have "\<dots> = Inr (s\<lparr>changed_tbl := changed_tbl s @ changed_rows nid (next_changed_id s) (d # ds),
                  next_changed_id := next_changed_id s + length (d # ds)\<rparr>)"
    by (simp add: s'_def changed_rows_def d)
  finally show ?case .
qed

lemma store_state_stores:
  assumes cmp: "compare_with_last s domain pd = Inr (True, ds)"
    and keys: "\<forall>key \<in> set (map fst datapoints). pd key = Some (cur key)"
    and dom: "find_domain s domain \<noteq> None"
    and noclash: "\<forall>st \<in> set (state_tbl s). \<not> (st_domain st = domain \<and> st_check_time st = t)"
    and fresh: "\<forall>c \<in> set (changed_tbl s). ch_state c = next_state_id s \<longrightarrow>
                  ch_info c \<notin> set (map fst ds)"
    and dist: "distinct (map fst ds)"
  shows "\<exists>s'. store_state t s domain check_data pd do_dns = Inr (True, s')
       \<and> domain_tbl s' =
           map (\<lambda>r. if d_domain r = domain
                     then r\<lparr>d_cur_raw_text := Some check_data, d_last_checked := Some t,
                            d_do_dns := do_dns, d_last_state := Some (next_state_id s)\<rparr>
                     else r) (domain_tbl s)
       \<and> state_tbl s' = state_tbl s @
             [\<lparr>st_id = next_state_id s, st_domain = domain, st_check_time = t,
               st_raw_text = check_data,
               st_data = row_data (map fst datapoints) (map cur (map fst datapoints))\<rparr>]
       \<and> changed_tbl s' = changed_tbl s @ changed_rows (next_state_id s) (next_changed_id s) ds
       \<and> next_state_id s' = next_state_id s + 1
       \<and> next_changed_id s' = next_changed_id s + length ds"
proof -
  define upd :: "domain_row \<Rightarrow> domain_row" where "upd = (\<lambda>r. r\<lparr>d_cur_raw_text := Some check_data, d_last_checked := Some t,
                       d_do_dns := do_dns\<rparr>)"
  define s1 where "s1 = update_domain s domain upd"
  define new where "new = \<lparr>st_id = next_state_id s, st_domain = domain, st_check_time = t,
               st_raw_text = check_data,
               st_data = row_data (map fst datapoints) (map cur (map fst datapoints))\<rparr>"
  define s2 where "s2 = s1\<lparr>state_tbl := state_tbl s1 @ [new],
                          next_state_id := next_state_id s1 + 1\<rparr>"
  define s3 where "s3 = update_domain s2 domain (\<lambda>r. r\<lparr>d_last_state := Some (next_state_id s)\<rparr>)"
  define s4 where "s4 = s3\<lparr>changed_tbl := changed_tbl s3 @
                             changed_rows (next_state_id s) (next_changed_id s3) ds,
                          next_changed_id := next_changed_id s3 + length ds\<rparr>"
  have upd_dom: "\<And>r. d_domain (upd r) = d_domain r" by (simp add: upd_def)
  have s1_tbls: "state_tbl s1 = state_tbl s" "changed_tbl s1 = changed_tbl s"
    "next_state_id s1 = next_state_id s" "next_changed_id s1 = next_changed_id s"
    by (simp_all add: s1_def update_domain_def)
  have d1: "find_domain s1 domain \<noteq> None"
    using dom find_domain_update [of upd s domain domain, OF upd_dom] by (simp add: s1_def)
  have nc1: "\<not> list_ex (\<lambda>st. st_domain st = domain \<and> st_check_time st = t) (state_tbl s1)"
    using noclash by (simp add: s1_tbls list_ex_iff)
  have ins: "insert_state s1 t domain check_data pd = Inr (next_state_id s, s2)"
    using d1 nc1 map_err_getitem [OF keys]
    by (simp add: insert_state_def s2_def new_def s1_tbls)
  have f2: "find_state s2 (next_state_id s) \<noteq> None"
    unfolding find_state_def s2_def by (simp add: find_append_last new_def)
  have sls: "set_last_state s2 domain (Some (next_state_id s)) = Inr s3"
    using f2 by (simp add: set_last_state_def s3_def)
  have f3: "find_state s3 (next_state_id s) \<noteq> None"
    using f2 by (simp add: s3_def)
  have c3: "changed_tbl s3 = changed_tbl s" "next_changed_id s3 = next_changed_id s"
    by (simp_all add: s3_def s2_def update_domain_def s1_tbls)
  have cl: "\<forall>c \<in> set (changed_tbl s3). ch_state c = next_state_id s \<longrightarrow>
              ch_info c \<notin> set (map fst ds)"
    using fresh by (simp add: c3)
  have ic: "insert_changed s3 (next_state_id s) ds = Inr s4"
    unfolding s4_def by (rule insert_changed_ok [OF f3 cl dist])
  have res: "store_state t s domain check_data pd do_dns = Inr (True, s4)"
    using cmp ins sls ic
    by (simp add: store_state_def Let_def s1_def [symmetric] upd_def [symmetric])
  have dt: "domain_tbl s4 =
           map (\<lambda>r. if d_domain r = domain
                     then r\<lparr>d_cur_raw_text := Some check_data, d_last_checked := Some t,
                            d_do_dns := do_dns, d_last_state := Some (next_state_id s)\<rparr>
                     else r) (domain_tbl s)"
    by (simp add: s4_def s3_def s2_def s1_def update_domain_def upd_def comp_def)
  have "state_tbl s4 = state_tbl s @ [new]"
    and "changed_tbl s4 = changed_tbl s @ changed_rows (next_state_id s) (next_changed_id s) ds"
    and "next_state_id s4 = next_state_id s + 1"
    and "next_changed_id s4 = next_changed_id s + length ds"
    by (simp_all add: s4_def c3 s3_def s2_def update_domain_def s1_tbls)
  with res dt show ?thesis unfolding new_def by blast
qed

lemma example_record_keys:
  "\<forall>key \<in> set (map fst datapoints). example_record r i m key = Some (example_cols r i m key)"
  by (simp add: datapoints_def example_record_def example_cols_def)

lemma wf_example_store: "wf_store example_store"
  by (simp add: wf_store_def example_store_def)

lemma compare_no_last:
  "find_domain s domain = Some row \<Longrightarrow> d_last_state row = None \<Longrightarrow>
     compare_with_last s domain pd = Inr (True, [])"
  by (simp add: compare_with_last_def)

lemma compare_with_prev:
  assumes "find_domain s domain = Some row" and "d_last_state row = Some sid"
    and "find_state s sid = Some prev"
    and "\<forall>key \<in> set (map fst datapoints). pd key = Some (cur key)"
  shows "compare_with_last s domain pd =
           Inr ((\<exists>key \<in> set (map fst datapoints). \<not> py_eq (st_data prev key) (cur key)),
                map (\<lambda>(key, eng). (eng, st_data prev key, cur key))
                  (filter (\<lambda>(key, eng). \<not> py_eq (st_data prev key) (cur key)) datapoints))"
proof -
  have k: "\<forall>(key, eng) \<in> set datapoints. pd key = Some (cur key)"
    using assms(4) by auto
  have "(filter (\<lambda>(key, eng). \<not> py_eq (st_data prev key) (cur key)) datapoints \<noteq> [])
          = (\<exists>key \<in> set (map fst datapoints). \<not> py_eq (st_data prev key) (cur key))"
    by (force simp: filter_empty_conv)
  then show ?thesis
    using assms(1-3) find_differences_eq [OF k, of "st_data prev"]
    by (simp add: compare_with_last_def)
qed

lemma labels_of_differences:
  "map fst (map (\<lambda>(key, eng). (eng, f key, g key)) xs) = map snd xs"
  by (induction xs) auto

lemma labels_distinct:
  "distinct (map fst (map (\<lambda>(key, eng). (eng, f key, g key)) (filter P datapoints)))"
proof -
  have "distinct (map snd datapoints)"
    by (simp add: datapoints_def)
  then have "distinct (map snd (filter P datapoints))"
    by (rule distinct_map_filter)
  then show ?thesis
    by (simp only: labels_of_differences)
qed

lemma wf_store_fresh:
  "wf_store s \<Longrightarrow> c \<in> set (changed_tbl s) \<Longrightarrow> ch_state c \<noteq> next_state_id s"
  by (fastforce simp: wf_store_def)

lemma find_Some_holds: "find P xs = Some x \<Longrightarrow> P x \<and> x \<in> set xs"
  by (induction xs) (auto split: if_splits)

lemma find_domain_Some:
  "find_domain s domain = Some row \<Longrightarrow> d_domain row = domain \<and> row \<in> set (domain_tbl s)"
  unfolding find_domain_def by (drule find_Some_holds) simp

lemma dt_eq_refl: "dt_eq a a"
  by (cases "tzinfo a") (simp_all add: dt_eq_def)

lemma scalar_eq_refl: "scalar_eq a a"
  by (cases a) (simp_all add: dt_eq_refl)

lemma py_eq_refl: "py_eq v v"
  by (cases v) (simp_all add: scalar_eq_refl list_all2_same)

subsection \<open>The comparison with the previous state\<close>

text \<open>
  Claim C6. For a domain whose last state exists, the comparison reads exactly the
  eighteen keys of \<^verbatim>\<open>datapoints\<close> in their declared order and compares each old and new
  value with Python's equality. Its flag is true if and only if some key differs, and
  its list of differences is the one the specification describes: one entry per
  differing key, in the declared order, with the English label, the old and the new
  value. When the state is stored (the database being consistent and no state of the
  domain carrying the same time), the rows added to \<^verbatim>\<open>changed\<close> are these entries in
  this order, attached to the new state.
\<close>

theorem differences_in_declared_order:
  assumes row: "find_domain s domain = Some row"
    and last: "d_last_state row = Some sid"
    and prev: "find_state s sid = Some prev"
    and keys: "\<forall>key \<in> set (map fst datapoints). parsed_data key = Some (cur key)"
  shows "map fst datapoints =
           [''registrar'', ''whois_server'', ''referral_url'', ''updated_date'',
            ''creation_date'', ''expiration_date'', ''name_servers'', ''status'', ''emails'',
            ''dnssec'', ''name'', ''org'', ''address'', ''city'', ''state'', ''zipcode'',
            ''ip'', ''mx'']
       \<and> compare_with_last s domain parsed_data =
           Inr ((\<exists>key \<in> set (map fst datapoints). \<not> py_eq (st_data prev key) (cur key)),
                diff_spec (st_data prev) cur)
       \<and> (wf_store s
            \<and> (\<exists>key \<in> set (map fst datapoints). \<not> py_eq (st_data prev key) (cur key))
            \<and> (\<forall>st \<in> set (state_tbl s). \<not> (st_domain st = domain \<and> st_check_time st = t))
          \<longrightarrow> (\<exists>s'. store_state t s domain check_data parsed_data do_dns = Inr (True, s')
                 \<and> changed_tbl s' = changed_tbl s @
                      changed_rows (next_state_id s) (next_changed_id s)
                        (diff_spec (st_data prev) cur)))"
proof (intro conjI impI)
  show "map fst datapoints =
           [''registrar'', ''whois_server'', ''referral_url'', ''updated_date'',
            ''creation_date'', ''expiration_date'', ''name_servers'', ''status'', ''emails'',
            ''dnssec'', ''name'', ''org'', ''address'', ''city'', ''state'', ''zipcode'',
            ''ip'', ''mx'']"
    by (simp add: datapoints_def)
  show cmp: "compare_with_last s domain parsed_data =
           Inr ((\<exists>key \<in> set (map fst datapoints). \<not> py_eq (st_data prev key) (cur key)),
                diff_spec (st_data prev) cur)"
    unfolding diff_spec_def by (rule compare_with_prev [OF row last prev keys])
  assume a: "wf_store s
            \<and> (\<exists>key \<in> set (map fst datapoints). \<not> py_eq (st_data prev key) (cur key))
            \<and> (\<forall>st \<in> set (state_tbl s). \<not> (st_domain st = domain \<and> st_check_time st = t))"
  then have cmp': "compare_with_last s domain parsed_data =
                     Inr (True, diff_spec (st_data prev) cur)"
    using cmp by simp
  have dom: "find_domain s domain \<noteq> None" using row by simp
  have time: "\<forall>st \<in> set (state_tbl s). \<not> (st_domain st = domain \<and> st_check_time st = t)"
    using a by blast
  have fresh: "\<forall>c \<in> set (changed_tbl s). ch_state c = next_state_id s \<longrightarrow>
                  ch_info c \<notin> set (map fst (diff_spec (st_data prev) cur))"
    using a wf_store_fresh by blast
  have dist: "distinct (map fst (diff_spec (st_data prev) cur))"
    unfolding diff_spec_def by (rule labels_distinct)
  from store_state_stores [OF cmp' keys dom time fresh dist, of check_data do_dns]
  show "\<exists>s'. store_state t s domain check_data parsed_data do_dns = Inr (True, s')
                 \<and> changed_tbl s' = changed_tbl s @
                      changed_rows (next_state_id s) (next_changed_id s)
                        (diff_spec (st_data prev) cur)"
    by (elim exE conjE) (intro exI conjI)
qed

theorem differences_in_declared_order_witness:
  "\<exists>s'. store_state 200 example_store ''example.com'' ''new raw text''
            (example_record ''Registrar B'' ''192.0.2.1'' ''(lookups disabled)'') True
            = Inr (True, s')
       \<and> changed_tbl s' =
           [\<lparr>ch_id = 1, ch_state = 2, ch_info = ''Registrar'',
             ch_val_from = Scalar (VStr ''Registrar A''),
             ch_val_to = Scalar (VStr ''Registrar B'')\<rparr>,
            \<lparr>ch_id = 2, ch_state = 2, ch_info = ''IP Address'',
             ch_val_from = Scalar (VStr ''(lookups disabled)''),
             ch_val_to = Scalar (VStr ''192.0.2.1'')\<rparr>]"
proof -
  define row where "row = \<lparr>d_domain = ''example.com'', d_last_state = Some 1,
      d_active_checks = True, d_do_dns = False, d_last_checked = Some (100::nat),
      d_cur_raw_text = Some ''raw text''\<rparr>"
  define prev where "prev = \<lparr>st_id = 1, st_domain = ''example.com'', st_check_time = 100,
          st_raw_text = ''raw text'',
          st_data = example_cols ''Registrar A'' ''(lookups disabled)'' ''(lookups disabled)''\<rparr>"
  define cur where "cur = example_cols ''Registrar B'' ''192.0.2.1'' ''(lookups disabled)''"
  have r: "find_domain example_store ''example.com'' = Some row"
    by (simp add: find_domain_def example_store_def row_def)
  have l: "d_last_state row = Some 1" by (simp add: row_def)
  have p: "find_state example_store 1 = Some prev"
    by (simp add: find_state_def example_store_def prev_def)
  have k: "\<forall>key \<in> set (map fst datapoints).
      example_record ''Registrar B'' ''192.0.2.1'' ''(lookups disabled)'' key = Some (cur key)"
    unfolding cur_def by (rule example_record_keys)
  have d: "diff_spec (st_data prev) cur =
             [(''Registrar'', Scalar (VStr ''Registrar A''), Scalar (VStr ''Registrar B'')),
              (''IP Address'', Scalar (VStr ''(lookups disabled)''), Scalar (VStr ''192.0.2.1''))]"
    by (simp add: diff_spec_def prev_def cur_def datapoints_def example_cols_def
          example_record_def example_date_def dt_eq_def)
  have any: "\<exists>key \<in> set (map fst datapoints). \<not> py_eq (st_data prev key) (cur key)"
    by (rule bexI [of _ "''registrar''"])
       (simp_all add: prev_def cur_def datapoints_def example_cols_def example_record_def)
  have t: "\<forall>st \<in> set (state_tbl example_store).
             \<not> (st_domain st = ''example.com'' \<and> st_check_time st = 200)"
    by (simp add: example_store_def)
  from differences_in_declared_order [OF r l p k,
      where t = 200 and check_data = "''new raw text''" and do_dns = True]
  have "wf_store example_store
            \<and> (\<exists>key \<in> set (map fst datapoints). \<not> py_eq (st_data prev key) (cur key))
            \<and> (\<forall>st \<in> set (state_tbl example_store).
                  \<not> (st_domain st = ''example.com'' \<and> st_check_time st = 200))
          \<longrightarrow> (\<exists>s'. store_state 200 example_store ''example.com'' ''new raw text''
                   (example_record ''Registrar B'' ''192.0.2.1'' ''(lookups disabled)'') True
                   = Inr (True, s')
                 \<and> changed_tbl s' = changed_tbl example_store @
                      changed_rows (next_state_id example_store) (next_changed_id example_store)
                        (diff_spec (st_data prev) cur))"
    by (elim conjE)
  with wf_example_store any t
  obtain s' where res: "store_state 200 example_store ''example.com'' ''new raw text''
                   (example_record ''Registrar B'' ''192.0.2.1'' ''(lookups disabled)'') True
                   = Inr (True, s')"
    and ch: "changed_tbl s' = changed_tbl example_store @
                      changed_rows (next_state_id example_store) (next_changed_id example_store)
                        (diff_spec (st_data prev) cur)"
    by (elim impE exE conjE) (intro conjI)
  have "changed_tbl s' =
           [\<lparr>ch_id = 1, ch_state = 2, ch_info = ''Registrar'',
             ch_val_from = Scalar (VStr ''Registrar A''),
             ch_val_to = Scalar (VStr ''Registrar B'')\<rparr>,
            \<lparr>ch_id = 2, ch_state = 2, ch_info = ''IP Address'',
             ch_val_from = Scalar (VStr ''(lookups disabled)''),
             ch_val_to = Scalar (VStr ''192.0.2.1'')\<rparr>]"
    unfolding ch d by (simp add: example_store_def changed_rows_def)
  with res show ?thesis by (intro exI conjI)
qed

subsection \<open>Storing or not storing a state\<close>

text \<open>
  Claim C4. When the domain has a last state and every compared key of the new record
  equals the value in that state, \<^verbatim>\<open>_store_state\<close> returns \<^verbatim>\<open>False\<close>; the tables
  \<^verbatim>\<open>state\<close> and \<^verbatim>\<open>changed\<close> and both counters stay as they are; the row of the
  domain gets the new raw text, the time of the check and the \<^verbatim>\<open>do_dns\<close> flag and
  keeps its last state; the rows of other domains are untouched.
\<close>

theorem unchanged_check_updates_domain_only:
  assumes row: "find_domain s domain = Some row"
    and last: "d_last_state row = Some sid"
    and prev: "find_state s sid = Some prev"
    and same: "\<forall>key \<in> set (map fst datapoints).
                 \<exists>v. parsed_data key = Some v \<and> py_eq (st_data prev key) v"
  shows "\<exists>s'. store_state t s domain check_data parsed_data do_dns = Inr (False, s')
       \<and> state_tbl s' = state_tbl s
       \<and> changed_tbl s' = changed_tbl s
       \<and> next_state_id s' = next_state_id s
       \<and> next_changed_id s' = next_changed_id s
       \<and> find_domain s' domain =
            Some (row\<lparr>d_cur_raw_text := Some check_data, d_last_checked := Some t,
                      d_do_dns := do_dns\<rparr>)
       \<and> Option.bind (find_domain s' domain) d_last_state = Some sid
       \<and> (\<forall>other. other \<noteq> domain \<longrightarrow> find_domain s' other = find_domain s other)"
proof -
  define cur where "cur = (\<lambda>key. the (parsed_data key))"
  define upd :: "domain_row \<Rightarrow> domain_row" where
    "upd = (\<lambda>r. r\<lparr>d_cur_raw_text := Some check_data, d_last_checked := Some t,
                   d_do_dns := do_dns\<rparr>)"
  define s' where "s' = update_domain s domain upd"
  have keys: "\<forall>key \<in> set (map fst datapoints). parsed_data key = Some (cur key)"
    using same by (auto simp: cur_def)
  have eq: "\<forall>key \<in> set (map fst datapoints). py_eq (st_data prev key) (cur key)"
    using same by (auto simp: cur_def)
  then have none: "filter (\<lambda>(key, eng). \<not> py_eq (st_data prev key) (cur key)) datapoints = []"
    by (force simp: filter_empty_conv)
  have cmp: "compare_with_last s domain parsed_data = Inr (False, [])"
    using compare_with_prev [OF row last prev keys] eq none by simp
  have res: "store_state t s domain check_data parsed_data do_dns = Inr (False, s')"
    using cmp by (simp add: store_state_def s'_def upd_def)
  have upd_dom: "\<And>r. d_domain (upd r) = d_domain r" by (simp add: upd_def)
  have fd: "find_domain s' other =
              map_option (\<lambda>r. if d_domain r = domain then upd r else r) (find_domain s other)"
    for other
    unfolding s'_def by (rule find_domain_update [OF upd_dom])
  have rd: "d_domain row = domain"
    using find_domain_Some [OF row] by simp
  have f1: "find_domain s' domain = Some (upd row)"
    using fd [of domain] row rd by simp
  have f2: "find_domain s' other = find_domain s other" if "other \<noteq> domain" for other
  proof (cases "find_domain s other")
    case None
    then show ?thesis using fd [of other] by simp
  next
    case (Some r)
    then have "d_domain r = other" using find_domain_Some by blast
    with Some that show ?thesis using fd [of other] by simp
  qed
  have "state_tbl s' = state_tbl s" "changed_tbl s' = changed_tbl s"
    "next_state_id s' = next_state_id s" "next_changed_id s' = next_changed_id s"
    by (simp_all add: s'_def update_domain_def)
  moreover have "Option.bind (find_domain s' domain) d_last_state = Some sid"
    using f1 last by (simp add: upd_def)
  ultimately show ?thesis
    using res f1 f2 unfolding upd_def by blast
qed

theorem unchanged_check_updates_domain_only_witness:
  "\<exists>s'. store_state 200 example_store ''example.com'' ''new raw text''
            (example_record ''Registrar A'' ''(lookups disabled)'' ''(lookups disabled)'')
            False = Inr (False, s')
       \<and> state_tbl s' = state_tbl example_store
       \<and> changed_tbl s' = changed_tbl example_store
       \<and> find_domain s' ''example.com'' =
            Some \<lparr>d_domain = ''example.com'', d_last_state = Some 1, d_active_checks = True,
                  d_do_dns = False, d_last_checked = Some 200,
                  d_cur_raw_text = Some ''new raw text''\<rparr>"
proof -
  define row where "row = \<lparr>d_domain = ''example.com'', d_last_state = Some 1,
      d_active_checks = True, d_do_dns = False, d_last_checked = Some (100::nat),
      d_cur_raw_text = Some ''raw text''\<rparr>"
  define prev where "prev = \<lparr>st_id = 1, st_domain = ''example.com'', st_check_time = 100,
          st_raw_text = ''raw text'',
          st_data = example_cols ''Registrar A'' ''(lookups disabled)'' ''(lookups disabled)''\<rparr>"
  have r: "find_domain example_store ''example.com'' = Some row"
    by (simp add: find_domain_def example_store_def row_def)
  have l: "d_last_state row = Some 1" by (simp add: row_def)
  have p: "find_state example_store 1 = Some prev"
    by (simp add: find_state_def example_store_def prev_def)
  have same: "\<forall>key \<in> set (map fst datapoints).
      \<exists>v. example_record ''Registrar A'' ''(lookups disabled)'' ''(lookups disabled)'' key = Some v
          \<and> py_eq (st_data prev key) v"
    using example_record_keys [of "''Registrar A''" "''(lookups disabled)''" "''(lookups disabled)''"]
    by (simp add: prev_def py_eq_refl)
  from unchanged_check_updates_domain_only [OF r l p same,
      where t = 200 and check_data = "''new raw text''" and do_dns = False]
  show ?thesis
    by (elim exE conjE) (rule exI, simp add: row_def)
qed



section \<open>Properties of a check\<close>


lemma fetch_no_attempt: "retries \<le> 0 \<Longrightarrow> fetch lookup retries 0 None = None"
  by (subst fetch.simps) simp


lemma add_domain_new:
  "find_domain s domain = None \<Longrightarrow>
     add_domain behavior s domain =
       Inr (s\<lparr>domain_tbl := domain_tbl s @
                [\<lparr>d_domain = domain, d_last_state = None, d_active_checks = True,
                  d_do_dns = (behavior \<noteq> FORCE_NO), d_last_checked = None,
                  d_cur_raw_text = None\<rparr>]\<rparr>,
            behavior \<noteq> FORCE_NO)"
  by (simp add: add_domain_def insert_domain_def)




text \<open>
  Without any attempt (\<^verbatim>\<open>max_retries\<close> zero or negative) \<^verbatim>\<open>check_data\<close> is still
  \<^verbatim>\<open>None\<close> when the text of the socket error is searched in it, which raises
  \<^verbatim>\<open>TypeError\<close>; the amended claim leaves this case out.
\<close>

lemma no_attempt_raises:
  "fst (check_domain (example_app 0) silent_world example_store ''example.com'' None)
     = Inl TypeError"
  by (simp add: check_domain_def fetch_check_data_def add_domain_def find_domain_def
        example_store_def example_app_def fetch_no_attempt)

section \<open>Properties of the DNS step\<close>

lemma digit_char_not_paren: "n < 10 \<Longrightarrow> char_of (48 + n :: nat) \<noteq> CHR ''(''"
proof
  assume n: "n < 10" and eq: "char_of (48 + n) = CHR ''(''"
  have "of_char (char_of (48 + n)) = (48 + n :: nat)" using n by simp
  moreover have "of_char (CHR ''('') = (40 :: nat)" by simp
  ultimately show False using eq by simp
qed

lemma str_nat_head: "str_nat n \<noteq> [] \<and> hd (str_nat n) \<noteq> CHR ''(''"
proof (induction n rule: str_nat.induct)
  case (1 n)
  show ?case
  proof (cases "n < 10")
    case True
    then show ?thesis
      by (subst (1 2) str_nat.simps) (simp add: digit_char_not_paren)
  next
    case False
    with 1 have "str_nat (n div 10) \<noteq> [] \<and> hd (str_nat (n div 10)) \<noteq> CHR ''(''" by simp
    with False show ?thesis
      by (subst (1 2) str_nat.simps) simp
  qed
qed

lemma str_int_head: "str_int i \<noteq> [] \<and> hd (str_int i) \<noteq> CHR ''(''"
  using str_nat_head by (simp add: str_int_def)

lemma mx_token_head: "mx_token r \<noteq> [] \<and> hd (mx_token r) \<noteq> CHR ''(''"
  using str_int_head [of "preference r"] by (simp add: mx_token_def Let_def)

lemma address_text_head: "is_address_text a \<Longrightarrow> a \<noteq> [] \<and> hd a \<noteq> CHR ''(''"
proof -
  assume a: "is_address_text a"
  then have ne: "a \<noteq> []" and sub: "set a \<subseteq> set ''0123456789abcdefABCDEF.:''"
    by (simp_all add: is_address_text_def)
  from ne have "hd a \<in> set a" by simp
  with sub have "hd a \<in> set ''0123456789abcdefABCDEF.:''" by blast
  moreover have "CHR ''('' \<notin> set ''0123456789abcdefABCDEF.:''" by simp
  ultimately have "hd a \<noteq> CHR ''(''" by metis
  with ne show ?thesis by simp
qed

lemma join_head: "xs \<noteq> [] \<Longrightarrow> hd xs \<noteq> [] \<Longrightarrow> hd (join sep xs) = hd (hd xs) \<and> join sep xs \<noteq> []"
  by (cases xs) (simp_all add: join_def)

lemma join_sorted_not_sentinel:
  assumes "\<forall>x \<in> set xs. x \<noteq> [] \<and> hd x \<noteq> CHR ''(''"
  shows "join '', '' (sort (remdups xs)) \<noteq> ''(lookups disabled)''"
proof (cases "xs = []")
  case True
  then show ?thesis by (simp add: join_def)
next
  case False
  define ys where "ys = sort (remdups xs)"
  have s: "set ys = set xs" by (simp add: ys_def)
  with False have ne: "ys \<noteq> []" by auto
  then have "hd ys \<in> set xs" using s by (metis hd_in_set)
  with assms have h: "hd ys \<noteq> []" "hd (hd ys) \<noteq> CHR ''(''" by auto
  from join_head [OF ne h(1)] h(2) have "hd (join '', '' ys) \<noteq> CHR ''(''" by simp
  then have "join '', '' ys \<noteq> ''(lookups disabled)''" by auto
  then show ?thesis by (simp add: ys_def)
qed

lemma diff_spec_member:
  assumes "(key, eng) \<in> set datapoints" and "\<not> py_eq (old key) (new key)"
  shows "(eng, old key, new key) \<in> set (diff_spec old new)"
  using assms by (force simp: diff_spec_def)

text \<open>
  Claim C9. Without DNS lookups both \<^verbatim>\<open>ip\<close> and \<^verbatim>\<open>mx\<close> are the text
  \<^verbatim>\<open>(lookups disabled)\<close>. With lookups, whatever the resolver answers for MX (an
  empty answer included), \<^verbatim>\<open>mx\<close> is not that text: it is empty or begins with a
  numeric preference. The same holds for \<^verbatim>\<open>ip\<close> when the answers for A and AAAA are
  texts of addresses, which begin with a hexadecimal digit, a dot or a colon. So for a
  domain whose last state holds the text in both columns, the comparison with a record
  that carries real DNS data always reports a change, with an entry for the MX
  addresses, and with one for the IP address too.
\<close>

theorem dns_sentinel_registers_change:
  assumes a4: "answers_of (query_A w domain) = Inr a4"
    and a6: "answers_of (query_AAAA w domain) = Inr a6"
    and mxs: "answers_of (query_MX w domain) = Inr mxs"
    and row: "find_domain s domain = Some row"
    and last: "d_last_state row = Some sid"
    and prev: "find_state s sid = Some prev"
    and old_ip: "st_data prev ''ip'' = Scalar (VStr ''(lookups disabled)'')"
    and old_mx: "st_data prev ''mx'' = Scalar (VStr ''(lookups disabled)'')"
    and keys: "\<forall>key \<in> set (map fst datapoints).
                 key \<noteq> ''ip'' \<longrightarrow> key \<noteq> ''mx'' \<longrightarrow> parsed_data key \<noteq> None"
  shows "inject_dns_placeholder parsed_data ''ip'' = Some (Scalar (VStr ''(lookups disabled)''))
       \<and> inject_dns_placeholder parsed_data ''mx'' = Some (Scalar (VStr ''(lookups disabled)''))
       \<and> (\<exists>p ip mx ds.
             inject_dns_lookups w domain parsed_data = Inr p
           \<and> p ''ip'' = Some (Scalar (VStr ip))
           \<and> p ''mx'' = Some (Scalar (VStr mx)) \<and> mx \<noteq> ''(lookups disabled)''
           \<and> compare_with_last s domain p = Inr (True, ds)
           \<and> (''MX Addresses'', Scalar (VStr ''(lookups disabled)''), Scalar (VStr mx)) \<in> set ds
           \<and> ((\<forall>a \<in> set (a4 @ a6). is_address_text a) \<longrightarrow>
                  ip \<noteq> ''(lookups disabled)''
                \<and> (''IP Address'', Scalar (VStr ''(lookups disabled)''), Scalar (VStr ip))
                     \<in> set ds))"
proof -
  define ip where "ip = join '', '' (sort (remdups (a4 @ a6)))"
  define mx where "mx = join '', '' (sort (remdups (map mx_token mxs)))"
  define p where "p = parsed_data(''ip'' \<mapsto> Scalar (VStr ip), ''mx'' \<mapsto> Scalar (VStr mx))"
  define cur where "cur = (\<lambda>key. the (p key))"
  have inj: "inject_dns_lookups w domain parsed_data = Inr p"
    by (simp add: inject_dns_lookups_def a4 a6 mxs p_def ip_def mx_def)
  have pip: "p ''ip'' = Some (Scalar (VStr ip))" and pmx: "p ''mx'' = Some (Scalar (VStr mx))"
    by (simp_all add: p_def)
  have ip_ne: "ip \<noteq> ''(lookups disabled)''"
    if "\<forall>a \<in> set (a4 @ a6). is_address_text a"
    unfolding ip_def using that address_text_head
    by (intro join_sorted_not_sentinel) blast
  have mx_ne: "mx \<noteq> ''(lookups disabled)''"
    unfolding mx_def using mx_token_head
    by (intro join_sorted_not_sentinel) auto
  have k: "\<forall>key \<in> set (map fst datapoints). p key = Some (cur key)"
  proof
    fix key assume "key \<in> set (map fst datapoints)"
    with keys have "p key \<noteq> None" by (auto simp: p_def)
    then show "p key = Some (cur key)" by (auto simp: cur_def)
  qed
  have c_ip: "cur ''ip'' = Scalar (VStr ip)" and c_mx: "cur ''mx'' = Scalar (VStr mx)"
    by (simp_all add: cur_def pip pmx)
  have n_ip: "\<not> py_eq (st_data prev ''ip'') (cur ''ip'')"
    if "\<forall>a \<in> set (a4 @ a6). is_address_text a"
    using ip_ne [OF that] by (simp add: old_ip c_ip)
  have n_mx: "\<not> py_eq (st_data prev ''mx'') (cur ''mx'')"
    using mx_ne by (simp add: old_mx c_mx)
  have m_ip: "(''ip'', ''IP Address'') \<in> set datapoints"
    and m_mx: "(''mx'', ''MX Addresses'') \<in> set datapoints"
    by (simp_all add: datapoints_def)
  have "\<exists>key \<in> set (map fst datapoints). \<not> py_eq (st_data prev key) (cur key)"
    using m_mx n_mx by force
  with compare_with_prev [OF row last prev k]
  have cmp: "compare_with_last s domain p = Inr (True, diff_spec (st_data prev) cur)"
    by (simp add: diff_spec_def)
  have d_ip: "(''IP Address'', Scalar (VStr ''(lookups disabled)''), Scalar (VStr ip))
                \<in> set (diff_spec (st_data prev) cur)"
    if "\<forall>a \<in> set (a4 @ a6). is_address_text a"
    using diff_spec_member [where old = "st_data prev" and new = cur, OF m_ip n_ip [OF that]]
    by (simp add: old_ip c_ip)
  have d_mx: "(''MX Addresses'', Scalar (VStr ''(lookups disabled)''), Scalar (VStr mx))
                \<in> set (diff_spec (st_data prev) cur)"
    using diff_spec_member [where old = "st_data prev" and new = cur, OF m_mx n_mx]
    by (simp add: old_mx c_mx)
  have "inject_dns_placeholder parsed_data ''ip'' = Some (Scalar (VStr ''(lookups disabled)''))"
    and "inject_dns_placeholder parsed_data ''mx'' = Some (Scalar (VStr ''(lookups disabled)''))"
    by (simp_all add: inject_dns_placeholder_def)
  moreover have "(\<forall>a \<in> set (a4 @ a6). is_address_text a) \<longrightarrow>
                  ip \<noteq> ''(lookups disabled)''
                \<and> (''IP Address'', Scalar (VStr ''(lookups disabled)''), Scalar (VStr ip))
                     \<in> set (diff_spec (st_data prev) cur)"
    using ip_ne d_ip by blast
  ultimately show ?thesis
    using inj pip pmx mx_ne cmp d_mx by (intro conjI exI)
qed

theorem dns_sentinel_registers_change_witness:
  "\<exists>p ds. inject_dns_lookups resolving_world ''example.com''
             (example_record ''Registrar A'' [] []) = Inr p
       \<and> p ''ip'' = Some (Scalar (VStr ''192.0.2.1''))
       \<and> p ''mx'' = Some (Scalar (VStr ''10/mail.example.com''))
       \<and> compare_with_last example_store ''example.com'' p = Inr (True, ds)
       \<and> (''IP Address'', Scalar (VStr ''(lookups disabled)''), Scalar (VStr ''192.0.2.1''))
            \<in> set ds
       \<and> (''MX Addresses'', Scalar (VStr ''(lookups disabled)''),
             Scalar (VStr ''10/mail.example.com'')) \<in> set ds"
proof -
  define row where "row = \<lparr>d_domain = ''example.com'', d_last_state = Some 1,
      d_active_checks = True, d_do_dns = False, d_last_checked = Some (100::nat),
      d_cur_raw_text = Some ''raw text''\<rparr>"
  define prev where "prev = \<lparr>st_id = 1, st_domain = ''example.com'', st_check_time = 100,
          st_raw_text = ''raw text'',
          st_data = example_cols ''Registrar A'' ''(lookups disabled)'' ''(lookups disabled)''\<rparr>"
  define pd where "pd = example_record ''Registrar A'' [] []"
  have a4: "answers_of (query_A resolving_world ''example.com'') = Inr [''192.0.2.1'']"
    and a6: "answers_of (query_AAAA resolving_world ''example.com'') = Inr []"
    and mxs: "answers_of (query_MX resolving_world ''example.com'')
                = Inr [\<lparr>preference = 10, exchange = ''mail.example.com.''\<rparr>]"
    by (simp_all add: answers_of_def resolving_world_def)
  have addr: "\<forall>a \<in> set ([''192.0.2.1''] @ []). is_address_text a"
    by (simp add: is_address_text_def)
  have r: "find_domain example_store ''example.com'' = Some row"
    by (simp add: find_domain_def example_store_def row_def)
  have l: "d_last_state row = Some 1" by (simp add: row_def)
  have pv: "find_state example_store 1 = Some prev"
    by (simp add: find_state_def example_store_def prev_def)
  have o1: "st_data prev ''ip'' = Scalar (VStr ''(lookups disabled)'')"
    and o2: "st_data prev ''mx'' = Scalar (VStr ''(lookups disabled)'')"
    by (simp_all add: prev_def example_cols_def example_record_def)
  have k: "\<forall>key \<in> set (map fst datapoints).
             key \<noteq> ''ip'' \<longrightarrow> key \<noteq> ''mx'' \<longrightarrow> pd key \<noteq> None"
    using example_record_keys [of "''Registrar A''" "[]" "[]"] by (simp add: pd_def)
  from dns_sentinel_registers_change [OF a4 a6 mxs r l pv o1 o2 k]
  obtain p ip mx ds where
    inj: "inject_dns_lookups resolving_world ''example.com'' pd = Inr p"
    and pip: "p ''ip'' = Some (Scalar (VStr ip))"
    and pmx: "p ''mx'' = Some (Scalar (VStr mx))"
    and cmp: "compare_with_last example_store ''example.com'' p = Inr (True, ds)"
    and d2: "(''MX Addresses'', Scalar (VStr ''(lookups disabled)''), Scalar (VStr mx)) \<in> set ds"
    and d0: "(\<forall>a \<in> set ([''192.0.2.1''] @ []). is_address_text a) \<longrightarrow>
                  ip \<noteq> ''(lookups disabled)''
                \<and> (''IP Address'', Scalar (VStr ''(lookups disabled)''), Scalar (VStr ip))
                     \<in> set ds"
    by (elim exE conjE)
  from d0 addr
  have d1: "(''IP Address'', Scalar (VStr ''(lookups disabled)''), Scalar (VStr ip)) \<in> set ds"
    by (elim impE conjE)
  have ch: "char_of (49 :: nat) = CHR ''1''" "char_of (48 :: nat) = CHR ''0''"
    by code_simp+
  have ev: "inject_dns_lookups resolving_world ''example.com'' pd =
              Inr (pd(''ip'' \<mapsto> Scalar (VStr ''192.0.2.1''),
                      ''mx'' \<mapsto> Scalar (VStr ''10/mail.example.com'')))"
    by (simp add: inject_dns_lookups_def a4 a6 mxs join_def mx_token_def str_int_def
          str_nat.simps ch)
  from inj ev pip pmx have "ip = ''192.0.2.1''" and "mx = ''10/mail.example.com''"
    by auto
  with inj pip pmx cmp d1 d2 show ?thesis
    unfolding pd_def by (intro exI conjI) simp_all
qed

section \<open>Properties of the purge\<close>

lemma state_ids_set:
  "set (map fst (get_state_ids s d)) = st_id ` {st \<in> set (state_tbl s). st_domain st = d}"
  by (auto simp: get_state_ids_def)

lemma distinct_map_eq:
  "distinct (map f xs) \<Longrightarrow> x \<in> set xs \<Longrightarrow> y \<in> set xs \<Longrightarrow> f x = f y \<Longrightarrow> x = y"
  by (meson distinct_map inj_on_def)

lemma state_id_of_domain:
  assumes "wf_store s" and "st \<in> set (state_tbl s)"
  shows "st_id st \<in> set (map fst (get_state_ids s d)) \<longleftrightarrow> st_domain st = d"
proof
  assume "st_id st \<in> set (map fst (get_state_ids s d))"
  then obtain st' where st': "st' \<in> set (state_tbl s)" "st_domain st' = d" "st_id st' = st_id st"
    unfolding state_ids_set by auto
  have "distinct (map st_id (state_tbl s))" using assms(1) by (simp add: wf_store_def)
  from distinct_map_eq [OF this st'(1) assms(2) st'(3)] st'(2) show "st_domain st = d" by simp
next
  assume "st_domain st = d"
  with assms(2) show "st_id st \<in> set (map fst (get_state_ids s d))"
    unfolding state_ids_set by auto
qed

lemma find_None_iff_all: "find P xs = None \<longleftrightarrow> (\<forall>x \<in> set xs. \<not> P x)"
  by (induction xs) auto

lemma find_append_new: "find P xs = None \<Longrightarrow> P x \<Longrightarrow> find P (xs @ [x]) = Some x"
  by (induction xs) (auto split: if_splits)

lemma filter_map_domain:
  "filter (\<lambda>r. d_domain r \<noteq> d) (map (\<lambda>r. if d_domain r = d then f r else r) rows)
     = filter (\<lambda>r. d_domain r \<noteq> d) rows"
  if "\<And>r. d_domain (f r) = d_domain r"
  using that by (induction rows) auto

lemma purge_domain_steps:
  assumes wf: "wf_store s" and known: "have_domain s d"
  shows "\<exists>s2 s3 s'.
           set_last_state (delete_changed s (map fst (get_state_ids s d))) d None = Inr s2
         \<and> delete_states s2 (map fst (get_state_ids s d)) = Inr s3
         \<and> delete_domain s3 d = Inr s'
         \<and> purge_domain s d = Inr s'
         \<and> domain_tbl s' = filter (\<lambda>r. d_domain r \<noteq> d) (domain_tbl s)
         \<and> state_tbl s' = filter (\<lambda>st. st_domain st \<noteq> d) (state_tbl s)
         \<and> changed_tbl s' =
             filter (\<lambda>c. ch_state c \<notin> set (map fst (get_state_ids s d))) (changed_tbl s)
         \<and> next_state_id s' = next_state_id s
         \<and> next_changed_id s' = next_changed_id s"
proof -
  define ids where "ids = map fst (get_state_ids s d)"
  define s1 where "s1 = delete_changed s ids"
  define s2 where "s2 = update_domain s1 d (\<lambda>r. r\<lparr>d_last_state := None\<rparr>)"
  define s3 where "s3 = s2\<lparr>state_tbl := filter (\<lambda>st. st_id st \<notin> set ids) (state_tbl s2)\<rparr>"
  define s' where "s' = s3\<lparr>domain_tbl := filter (\<lambda>r. d_domain r \<noteq> d) (domain_tbl s3)\<rparr>"
  have in_ids: "st_id st \<in> set ids \<longleftrightarrow> st_domain st = d" if "st \<in> set (state_tbl s)" for st
    unfolding ids_def by (rule state_id_of_domain [OF wf that])
  have sl: "set_last_state s1 d None = Inr s2"
    by (simp add: set_last_state_def s2_def)
  have no_changed: "\<not> list_ex (\<lambda>c. ch_state c \<in> set ids) (changed_tbl s2)"
    by (simp add: s2_def update_domain_def s1_def delete_changed_def list_ex_iff)
  have no_last: "\<not> list_ex (\<lambda>r. case d_last_state r of None \<Rightarrow> False | Some i \<Rightarrow> i \<in> set ids)
                     (domain_tbl s2)"
  proof -
    have "\<not> (case d_last_state r of None \<Rightarrow> False | Some i \<Rightarrow> i \<in> set ids)"
      if r: "r \<in> set (domain_tbl s)" "d_domain r \<noteq> d" for r
    proof (cases "d_last_state r")
      case None
      then show ?thesis by simp
    next
      case (Some i)
      with wf r(1) obtain st where "st \<in> set (state_tbl s)" "st_id st = i"
        "st_domain st = d_domain r"
        unfolding wf_store_def by blast
      with in_ids [of st] r(2) have "i \<notin> set ids" by auto
      with Some show ?thesis by simp
    qed
    then show ?thesis
      by (auto simp: s2_def update_domain_def s1_def delete_changed_def list_ex_iff)
  qed
  have ds: "delete_states s2 ids = Inr s3"
    using no_changed no_last by (simp add: delete_states_def s3_def)
  have st3: "state_tbl s3 = filter (\<lambda>st. st_domain st \<noteq> d) (state_tbl s)"
  proof -
    have "state_tbl s3 = filter (\<lambda>st. st_id st \<notin> set ids) (state_tbl s)"
      by (simp add: s3_def s2_def update_domain_def s1_def delete_changed_def)
    also have "\<dots> = filter (\<lambda>st. st_domain st \<noteq> d) (state_tbl s)"
      using in_ids by (intro filter_cong) auto
    finally show ?thesis .
  qed
  have dd: "delete_domain s3 d = Inr s'"
    by (simp add: delete_domain_def s'_def st3 list_ex_iff)
  have guard1: "(if get_state_ids s d \<noteq> [] then delete_changed s ids else s) = s1"
    by (auto simp: s1_def ids_def delete_changed_def)
  have guard2: "(if get_state_ids s d \<noteq> [] then delete_states s2 ids else Inr s2) = Inr s3"
    using ds by (auto simp: s3_def ids_def)
  have purge: "purge_domain s d = Inr s'"
  proof (cases "get_state_ids s d = []")
    case True
    then have "s1 = s" "s3 = s2" using guard1 guard2 by simp_all
    then show ?thesis
      using known sl dd True by (simp add: purge_domain_def Let_def)
  next
    case False
    then show ?thesis
      using known sl ds dd
      by (simp add: purge_domain_def Let_def ids_def [symmetric] s1_def [symmetric])
  qed
  have dt: "domain_tbl s' = filter (\<lambda>r. d_domain r \<noteq> d) (domain_tbl s)"
    by (simp add: s'_def s3_def s2_def update_domain_def s1_def delete_changed_def
          filter_map_domain)
  have "state_tbl s' = filter (\<lambda>st. st_domain st \<noteq> d) (state_tbl s)"
    using st3 by (simp add: s'_def)
  moreover have "changed_tbl s' = filter (\<lambda>c. ch_state c \<notin> set ids) (changed_tbl s)"
    and "next_state_id s' = next_state_id s" and "next_changed_id s' = next_changed_id s"
    by (simp_all add: s'_def s3_def s2_def update_domain_def s1_def delete_changed_def)
  ultimately show ?thesis
    using sl ds dd purge dt unfolding s1_def ids_def by blast
qed

lemma wf_after_purge:
  assumes wf: "wf_store s"
    and dt: "domain_tbl s' = filter (\<lambda>r. d_domain r \<noteq> d) (domain_tbl s)"
    and st: "state_tbl s' = filter (\<lambda>st. st_domain st \<noteq> d) (state_tbl s)"
    and ch: "changed_tbl s' =
               filter (\<lambda>c. ch_state c \<notin> set (map fst (get_state_ids s d))) (changed_tbl s)"
    and n1: "next_state_id s' = next_state_id s"
  shows "wf_store s'"
proof -
  have d1: "distinct (map d_domain (domain_tbl s'))"
    and d2: "distinct (map st_id (state_tbl s'))"
    and d3: "distinct (map (\<lambda>st. (st_domain st, st_check_time st)) (state_tbl s'))"
    and d4: "distinct (map (\<lambda>c. (ch_state c, ch_info c)) (changed_tbl s'))"
    using wf unfolding wf_store_def dt st ch by (simp_all add: distinct_map_filter)
  have b1: "\<forall>st \<in> set (state_tbl s'). st_id st < next_state_id s'"
    using wf unfolding wf_store_def st n1 by simp
  have b2: "\<forall>st \<in> set (state_tbl s'). st_domain st \<in> d_domain ` set (domain_tbl s')"
  proof
    fix st assume a: "st \<in> set (state_tbl s')"
    then have "st \<in> set (state_tbl s)" and nd: "st_domain st \<noteq> d" by (simp_all add: st)
    with wf obtain r where "r \<in> set (domain_tbl s)" "d_domain r = st_domain st"
      unfolding wf_store_def by auto
    with nd show "st_domain st \<in> d_domain ` set (domain_tbl s')"
      unfolding dt by force
  qed
  have b3: "\<forall>c \<in> set (changed_tbl s'). ch_state c \<in> st_id ` set (state_tbl s')"
  proof
    fix c assume "c \<in> set (changed_tbl s')"
    then have c: "c \<in> set (changed_tbl s)"
      and ni: "ch_state c \<notin> set (map fst (get_state_ids s d))"
      by (simp_all add: ch)
    from wf c obtain st' where st': "st' \<in> set (state_tbl s)" "st_id st' = ch_state c"
      unfolding wf_store_def by force
    with ni state_id_of_domain [OF wf st'(1), of d] have "st_domain st' \<noteq> d" by simp
    with st' show "ch_state c \<in> st_id ` set (state_tbl s')"
      unfolding st by force
  qed
  have b4: "\<forall>r \<in> set (domain_tbl s'). \<forall>i. d_last_state r = Some i \<longrightarrow>
            (\<exists>st \<in> set (state_tbl s'). st_id st = i \<and> st_domain st = d_domain r)"
  proof (intro ballI allI impI)
    fix r i assume "r \<in> set (domain_tbl s')" and i: "d_last_state r = Some i"
    then have r: "r \<in> set (domain_tbl s)" and nd: "d_domain r \<noteq> d" by (simp_all add: dt)
    with wf i obtain st' where "st' \<in> set (state_tbl s)" "st_id st' = i"
      "st_domain st' = d_domain r"
      unfolding wf_store_def by blast
    with nd show "\<exists>st \<in> set (state_tbl s'). st_id st = i \<and> st_domain st = d_domain r"
      unfolding st by auto
  qed
  show ?thesis
    unfolding wf_store_def using d1 d2 d3 d4 b1 b2 b3 b4 by (intro conjI)
qed

lemma check_domain_stores:
  assumes "add_domain (dns_behavior a) s d = Inr (s1, do_dns)"
    and "fetch_check_data a w d check_data = Some text"
    and "\<not> contains ''Socket not responding'' text"
    and "whois_load w d text = Inr raw"
    and "clean_parsed_data raw = Inr cleaned"
    and "(if do_dns then inject_dns_lookups w d cleaned
          else Inr (inject_dns_placeholder cleaned)) = Inr full"
    and "store_state (now w) s1 d text full do_dns = Inr (b, s2)"
  shows "check_domain a w s d check_data = (Inr b, s2)"
  using assms by (simp add: check_domain_def)

lemma clean_date_fields_keeps:
  "clean_date_fields fs pd = Inr p \<Longrightarrow> pd k \<noteq> None \<Longrightarrow> p k \<noteq> None"
proof (induction fs arbitrary: pd)
  case Nil
  then show ?case by simp
next
  case (Cons f fs)
  obtain key func where f: "f = (key, func)" by (cases f)
  from Cons.prems obtain p1 where p1: "clean_date_field key func pd = Inr p1"
    and rest: "clean_date_fields fs p1 = Inr p"
    by (auto simp: f bind_err_Inr_iff)
  from p1 Cons.prems(2) have "p1 k \<noteq> None"
    by (auto simp: clean_date_field_def bind_err_Inr_iff)
  with Cons.IH [OF rest] show ?case by simp
qed

lemma clean_parsed_data_keeps:
  assumes "clean_parsed_data pd = Inr p" and "pd k \<noteq> None"
  shows "p k \<noteq> None"
proof -
  from assms(1) obtain p3 p4 p5 where
    a: "clean_date_fields date_fields pd = Inr p3" and
    b: "clean_name_servers p3 = Inr p4" and
    c: "clean_status p4 = Inr p5" and
    d: "clean_emails p5 = Inr p"
    by (auto simp: clean_parsed_data_def bind_err_Inr_iff)
  have "p3 k \<noteq> None" using clean_date_fields_keeps [OF a assms(2)] .
  then have "p4 k \<noteq> None" using b by (auto simp: clean_name_servers_def bind_err_Inr_iff)
  then have p5: "p5 k \<noteq> None" using c by (auto simp: clean_status_def bind_err_Inr_iff)
  show ?thesis
  proof (cases "k = ''emails''")
    case False
    then show ?thesis using clean_emails_other [OF d, of k] p5 by simp
  next
    case True
    with p5 obtain v where v: "p5 ''emails'' = Some v" by auto
    show ?thesis
      using d v True by (cases v) (auto simp: clean_emails_def getitem_def bind_err_Inr_iff)
  qed
qed

lemma first_check_of_unknown_domain:
  assumes unknown: "find_domain s d = None"
    and nostate: "\<forall>st \<in> set (state_tbl s). st_domain st \<noteq> d"
    and got: "fetch_check_data a w d check_data = Some text"
      "\<not> contains ''Socket not responding'' text"
    and load: "whois_load w d text = Inr raw"
    and clean: "clean_parsed_data raw = Inr cleaned"
    and dns: "(if dns_behavior a \<noteq> FORCE_NO then inject_dns_lookups w d cleaned
               else Inr (inject_dns_placeholder cleaned)) = Inr full"
    and keys: "\<forall>key \<in> set (map fst datapoints). full key = Some (cur key)"
  shows "\<exists>s''. check_domain a w s d check_data = (Inr True, s'')
       \<and> changed_tbl s'' = changed_tbl s
       \<and> state_tbl s'' = state_tbl s @
            [\<lparr>st_id = next_state_id s, st_domain = d, st_check_time = now w,
              st_raw_text = text,
              st_data = row_data (map fst datapoints) (map cur (map fst datapoints))\<rparr>]"
proof -
  define new where "new = \<lparr>d_domain = d, d_last_state = None, d_active_checks = True,
                  d_do_dns = (dns_behavior a \<noteq> FORCE_NO), d_last_checked = None,
                  d_cur_raw_text = None\<rparr>"
  define s1 where "s1 = s\<lparr>domain_tbl := domain_tbl s @ [new]\<rparr>"
  have add: "add_domain (dns_behavior a) s d = Inr (s1, dns_behavior a \<noteq> FORCE_NO)"
    unfolding s1_def new_def by (rule add_domain_new [OF unknown])
  have row: "find_domain s1 d = Some new"
    using unknown unfolding find_domain_def s1_def
    by (simp add: find_append_new new_def)
  have last: "d_last_state new = None" by (simp add: new_def)
  have cmp: "compare_with_last s1 d full = Inr (True, [])"
    by (rule compare_no_last [OF row last])
  have dom: "find_domain s1 d \<noteq> None" using row by simp
  have time: "\<forall>st \<in> set (state_tbl s1). \<not> (st_domain st = d \<and> st_check_time st = now w)"
    using nostate by (simp add: s1_def)
  from store_state_stores [OF cmp keys dom time,
      where check_data = "text" and do_dns = "dns_behavior a \<noteq> FORCE_NO"]
  obtain s'' where
    res: "store_state (now w) s1 d text full (dns_behavior a \<noteq> FORCE_NO) = Inr (True, s'')"
    and st: "state_tbl s'' = state_tbl s1 @
             [\<lparr>st_id = next_state_id s1, st_domain = d, st_check_time = now w,
               st_raw_text = text,
               st_data = row_data (map fst datapoints) (map cur (map fst datapoints))\<rparr>]"
    and ch: "changed_tbl s'' = changed_tbl s1 @ changed_rows (next_state_id s1) (next_changed_id s1) []"
    by auto
  have "check_domain a w s d check_data = (Inr True, s'')"
    by (rule check_domain_stores [OF add got load clean dns res])
  moreover have "changed_tbl s'' = changed_tbl s"
    using ch by (simp add: changed_rows_def s1_def)
  moreover have "state_tbl s'' = state_tbl s @
            [\<lparr>st_id = next_state_id s, st_domain = d, st_check_time = now w,
              st_raw_text = text,
              st_data = row_data (map fst datapoints) (map cur (map fst datapoints))\<rparr>]"
    using st by (simp add: s1_def)
  ultimately show ?thesis by blast
qed

text \<open>
  Claim C8. For a domain present in a consistent database the purge succeeds, and it
  runs as four steps in this order, none of which the foreign keys reject: the rows of
  \<^verbatim>\<open>changed\<close> of all states of the domain are deleted, the last state of the domain is
  set to \<^verbatim>\<open>NULL\<close>, the states of the domain are deleted, the row of the domain is
  deleted; all in the one transaction that the final commit ends. Afterwards the
  domain has no row, no state and no row of \<^verbatim>\<open>changed\<close> left, the rows of other domains
  are as before, and the database is consistent again. A following check of the
  domain that gets a text, parses and normalises it and resolves DNS returns \<^verbatim>\<open>True\<close>,
  appends one state and adds nothing to \<^verbatim>\<open>changed\<close>, as a first observation does.
\<close>

theorem purge_removes_domain:
  assumes wf: "wf_store s" and known: "have_domain s d"
  shows "\<exists>s2 s3 s'.
           set_last_state (delete_changed s (map fst (get_state_ids s d))) d None = Inr s2
         \<and> delete_states s2 (map fst (get_state_ids s d)) = Inr s3
         \<and> delete_domain s3 d = Inr s'
         \<and> purge_domain s d = Inr s'
         \<and> find_domain s' d = None
         \<and> (\<forall>st \<in> set (state_tbl s'). st_domain st \<noteq> d)
         \<and> (\<forall>c \<in> set (changed_tbl s').
               ch_state c \<notin> st_id ` {st \<in> set (state_tbl s). st_domain st = d})
         \<and> domain_tbl s' = filter (\<lambda>r. d_domain r \<noteq> d) (domain_tbl s)
         \<and> state_tbl s' = filter (\<lambda>st. st_domain st \<noteq> d) (state_tbl s)
         \<and> wf_store s'
         \<and> (\<forall>a w check_data text raw cleaned full cur.
               fetch_check_data a w d check_data = Some text
             \<and> \<not> contains ''Socket not responding'' text
             \<and> whois_load w d text = Inr raw
             \<and> clean_parsed_data raw = Inr cleaned
             \<and> (if dns_behavior a \<noteq> FORCE_NO then inject_dns_lookups w d cleaned
                 else Inr (inject_dns_placeholder cleaned)) = Inr full
             \<and> (\<forall>key \<in> set (map fst datapoints). full key = Some (cur key))
             \<longrightarrow> (\<exists>s''. check_domain a w s' d check_data = (Inr True, s'')
                    \<and> changed_tbl s'' = changed_tbl s'
                    \<and> state_tbl s'' = state_tbl s' @
                         [\<lparr>st_id = next_state_id s', st_domain = d, st_check_time = now w,
                           st_raw_text = text,
                           st_data = row_data (map fst datapoints)
                                       (map cur (map fst datapoints))\<rparr>]))"
proof -
  from purge_domain_steps [OF wf known] obtain s2 s3 s' where
    steps: "set_last_state (delete_changed s (map fst (get_state_ids s d))) d None = Inr s2"
      "delete_states s2 (map fst (get_state_ids s d)) = Inr s3"
      "delete_domain s3 d = Inr s'"
      "purge_domain s d = Inr s'"
    and dt: "domain_tbl s' = filter (\<lambda>r. d_domain r \<noteq> d) (domain_tbl s)"
    and st: "state_tbl s' = filter (\<lambda>st. st_domain st \<noteq> d) (state_tbl s)"
    and ch: "changed_tbl s' =
             filter (\<lambda>c. ch_state c \<notin> set (map fst (get_state_ids s d))) (changed_tbl s)"
    and n1: "next_state_id s' = next_state_id s"
    by blast
  have unknown: "find_domain s' d = None"
    unfolding find_domain_def dt by (simp add: find_None_iff_all)
  have nostate: "\<forall>st \<in> set (state_tbl s'). st_domain st \<noteq> d"
    by (simp add: st)
  have nochanged: "\<forall>c \<in> set (changed_tbl s').
               ch_state c \<notin> st_id ` {st \<in> set (state_tbl s). st_domain st = d}"
    unfolding ch state_ids_set by simp
  have wf': "wf_store s'"
    by (rule wf_after_purge [OF wf dt st ch n1])
  have again: "\<forall>a w check_data text raw cleaned full cur.
               fetch_check_data a w d check_data = Some text
             \<and> \<not> contains ''Socket not responding'' text
             \<and> whois_load w d text = Inr raw
             \<and> clean_parsed_data raw = Inr cleaned
             \<and> (if dns_behavior a \<noteq> FORCE_NO then inject_dns_lookups w d cleaned
                 else Inr (inject_dns_placeholder cleaned)) = Inr full
             \<and> (\<forall>key \<in> set (map fst datapoints). full key = Some (cur key))
             \<longrightarrow> (\<exists>s''. check_domain a w s' d check_data = (Inr True, s'')
                    \<and> changed_tbl s'' = changed_tbl s'
                    \<and> state_tbl s'' = state_tbl s' @
                         [\<lparr>st_id = next_state_id s', st_domain = d, st_check_time = now w,
                           st_raw_text = text,
                           st_data = row_data (map fst datapoints)
                                       (map cur (map fst datapoints))\<rparr>])"
    using first_check_of_unknown_domain [OF unknown nostate] by blast
  show ?thesis
    using steps unknown nostate nochanged dt st wf' again by (intro exI conjI)
qed

theorem purge_removes_domain_witness:
  "\<exists>s' s''. purge_domain example_store ''example.com'' = Inr s'
       \<and> map d_domain (domain_tbl s') = [''new.example'']
       \<and> state_tbl s' = []
       \<and> check_domain (example_app 3) resolving_world s' ''example.com'' None = (Inr True, s'')
       \<and> changed_tbl s'' = changed_tbl s'
       \<and> map st_domain (state_tbl s'') = [''example.com'']"
proof -
  have known: "have_domain example_store ''example.com''"
    by (simp add: have_domain_def find_domain_def example_store_def)
  define a where "a = example_app 3"
  define w where "w = resolving_world"
  define txt0 where "txt0 = ''Domain Name: EXAMPLE''"
  have got: "fetch_check_data a w ''example.com'' None = Some txt0"
    by (simp add: fetch_check_data_def fetch.simps a_def w_def example_app_def
          resolving_world_def startswith_def txt0_def)
  have ok: "\<not> contains ''Socket not responding'' txt0"
    by (simp add: startswith_def txt0_def)
  have load: "whois_load w ''example.com'' txt0 = Inr example_whois"
    by (simp add: w_def resolving_world_def)
  have "\<exists>cleaned. clean_parsed_data example_whois = Inr cleaned"
    by (simp add: example_whois_def example_date_def clean_defs)
  then obtain cleaned where clean: "clean_parsed_data example_whois = Inr cleaned" by blast
  define full where "full = cleaned
     (''ip'' \<mapsto> Scalar (VStr (join '', '' (sort (remdups ([''192.0.2.1''] @ []))))),
      ''mx'' \<mapsto> Scalar (VStr (join '', '' (sort (remdups
                 (map mx_token [\<lparr>preference = 10, exchange = ''mail.example.com.''\<rparr>]))))))"
  have dns: "(if dns_behavior a \<noteq> FORCE_NO then inject_dns_lookups w ''example.com'' cleaned
               else Inr (inject_dns_placeholder cleaned)) = Inr full"
    by (simp add: a_def example_app_def inject_dns_lookups_def answers_of_def w_def
          resolving_world_def full_def)
  define cur where "cur = (\<lambda>key. the (full key))"
  have raw_keys: "\<forall>key \<in> set (map fst datapoints).
                    key \<noteq> ''ip'' \<longrightarrow> key \<noteq> ''mx'' \<longrightarrow> example_whois key \<noteq> None"
    by (simp add: datapoints_def example_whois_def)
  have keys: "\<forall>key \<in> set (map fst datapoints). full key = Some (cur key)"
  proof
    fix key assume k: "key \<in> set (map fst datapoints)"
    have "full key \<noteq> None"
    proof (cases "key = ''ip'' \<or> key = ''mx''")
      case True
      then show ?thesis by (auto simp: full_def)
    next
      case False
      with raw_keys k have "example_whois key \<noteq> None" by blast
      from clean_parsed_data_keeps [OF clean this] False show ?thesis
        by (simp add: full_def)
    qed
    then show "full key = Some (cur key)" by (auto simp: cur_def)
  qed
  from purge_removes_domain [OF wf_example_store known] obtain s' where
    p: "purge_domain example_store ''example.com'' = Inr s'"
    and dt: "domain_tbl s' = filter (\<lambda>r. d_domain r \<noteq> ''example.com'') (domain_tbl example_store)"
    and st: "state_tbl s' = filter (\<lambda>st. st_domain st \<noteq> ''example.com'') (state_tbl example_store)"
    and again: "\<forall>a w check_data text raw cleaned full cur.
               fetch_check_data a w ''example.com'' check_data = Some text
             \<and> \<not> contains ''Socket not responding'' text
             \<and> whois_load w ''example.com'' text = Inr raw
             \<and> clean_parsed_data raw = Inr cleaned
             \<and> (if dns_behavior a \<noteq> FORCE_NO then inject_dns_lookups w ''example.com'' cleaned
                 else Inr (inject_dns_placeholder cleaned)) = Inr full
             \<and> (\<forall>key \<in> set (map fst datapoints). full key = Some (cur key))
             \<longrightarrow> (\<exists>s''. check_domain a w s' ''example.com'' check_data = (Inr True, s'')
                    \<and> changed_tbl s'' = changed_tbl s'
                    \<and> state_tbl s'' = state_tbl s' @
                         [\<lparr>st_id = next_state_id s', st_domain = ''example.com'',
                           st_check_time = now w, st_raw_text = text,
                           st_data = row_data (map fst datapoints)
                                       (map cur (map fst datapoints))\<rparr>])"
    by (elim exE conjE)
  from again [rule_format, of a w None txt0 example_whois cleaned full cur]
    got ok load clean dns keys
  obtain s'' where c: "check_domain a w s' ''example.com'' None = (Inr True, s'')"
    and ch: "changed_tbl s'' = changed_tbl s'"
    and st2: "state_tbl s'' = state_tbl s' @
                         [\<lparr>st_id = next_state_id s', st_domain = ''example.com'',
                           st_check_time = now w, st_raw_text = txt0,
                           st_data = row_data (map fst datapoints)
                                       (map cur (map fst datapoints))\<rparr>]"
    by blast
  have d1: "map d_domain (domain_tbl s') = [''new.example'']"
    unfolding dt by (simp add: example_store_def)
  have s1: "state_tbl s' = []"
    unfolding st by (simp add: example_store_def)
  have s2: "map st_domain (state_tbl s'') = [''example.com'']"
    unfolding st2 s1 by simp
  from p d1 s1 c ch s2 show ?thesis
    unfolding a_def w_def by (intro exI conjI)
qed

section \<open>The database stays consistent\<close>

text \<open>
  The empty database is consistent, and a check or a purge of any domain, whatever it
  returns or raises, leaves a consistent database consistent. So the databases that
  the program builds are the consistent ones that the properties above speak of.
\<close>

lemma updated_rows_domains:
  assumes "\<And>r. d_domain (f r) = d_domain r"
  shows "map d_domain (map (\<lambda>r. if d_domain r = d then f r else r) rows) = map d_domain rows"
  using assms by (induction rows) auto

lemma updated_rows_member:
  "r' \<in> set (map (\<lambda>r. if d_domain r = d then f r else r) rows) \<Longrightarrow>
     \<exists>r \<in> set rows. r' = (if d_domain r = d then f r else r)"
  by auto

lemma wf_update_domain:
  assumes wf: "wf_store s"
    and fd: "\<And>r. d_domain (f r) = d_domain r"
    and fl: "\<And>r. d_last_state (f r) = d_last_state r"
  shows "wf_store (update_domain s d f)"
proof -
  define s' where "s' = update_domain s d f"
  have t: "state_tbl s' = state_tbl s" "changed_tbl s' = changed_tbl s"
    "next_state_id s' = next_state_id s"
    by (simp_all add: s'_def update_domain_def)
  have dt: "domain_tbl s' = map (\<lambda>r. if d_domain r = d then f r else r) (domain_tbl s)"
    by (simp add: s'_def update_domain_def)
  have names: "map d_domain (domain_tbl s') = map d_domain (domain_tbl s)"
    unfolding dt by (rule updated_rows_domains [OF fd])
  then have img: "d_domain ` set (domain_tbl s') = d_domain ` set (domain_tbl s)"
    by (metis set_map)
  have last: "\<forall>r \<in> set (domain_tbl s'). \<forall>i. d_last_state r = Some i \<longrightarrow>
            (\<exists>st \<in> set (state_tbl s'). st_id st = i \<and> st_domain st = d_domain r)"
  proof (intro ballI allI impI)
    fix r' i assume r': "r' \<in> set (domain_tbl s')" and i: "d_last_state r' = Some i"
    from r' obtain r where r: "r \<in> set (domain_tbl s)"
      and e: "r' = (if d_domain r = d then f r else r)"
      unfolding dt using updated_rows_member by blast
    from e fd fl have "d_domain r' = d_domain r" "d_last_state r' = d_last_state r" by auto
    with wf r i show "\<exists>st \<in> set (state_tbl s'). st_id st = i \<and> st_domain st = d_domain r'"
      unfolding wf_store_def t by simp
  qed
  show ?thesis
    using wf last unfolding s'_def [symmetric] wf_store_def t names img by simp
qed

lemma wf_insert_changed:
  "wf_store s \<Longrightarrow> insert_changed s n ds = Inr s' \<Longrightarrow> wf_store s'"
proof (induction ds arbitrary: s)
  case Nil
  then show ?case by simp
next
  case (Cons d ds)
  obtain info val_from val_to where d: "d = (info, val_from, val_to)" by (cases d)
  define s1 where "s1 = s\<lparr>changed_tbl := changed_tbl s @
                  [\<lparr>ch_id = next_changed_id s, ch_state = n, ch_info = info,
                    ch_val_from = val_from, ch_val_to = val_to\<rparr>],
                next_changed_id := next_changed_id s + 1\<rparr>"
  from Cons.prems(2) have ex: "find_state s n \<noteq> None"
    and nc: "\<not> list_ex (\<lambda>c. ch_state c = n \<and> ch_info c = info) (changed_tbl s)"
    and rest: "insert_changed s1 n ds = Inr s'"
    by (auto simp: d s1_def split: if_splits)
  from ex obtain st where "st \<in> set (state_tbl s)" "st_id st = n"
    by (auto simp: find_state_def dest: find_Some_holds)
  then have "n \<in> st_id ` set (state_tbl s)" by auto
  moreover have "(n, info) \<notin> (\<lambda>c. (ch_state c, ch_info c)) ` set (changed_tbl s)"
    using nc by (auto simp: list_ex_iff)
  ultimately have "wf_store s1"
    using Cons.prems(1) unfolding wf_store_def s1_def by simp
  from Cons.IH [OF this rest] show ?case .
qed

lemma wf_insert_state:
  assumes wf: "wf_store s" and ins: "insert_state s t d check_data pd = Inr (n, s2)"
  shows "wf_store (update_domain s2 d (\<lambda>r. r\<lparr>d_last_state := Some n\<rparr>))"
    and "find_state s2 n \<noteq> None"
proof -
  from ins obtain vals where
    dom: "find_domain s d \<noteq> None"
    and nc: "\<not> list_ex (\<lambda>st. st_domain st = d \<and> st_check_time st = t) (state_tbl s)"
    and n: "n = next_state_id s"
    and s2: "s2 = s\<lparr>state_tbl := state_tbl s @
                    [\<lparr>st_id = next_state_id s, st_domain = d, st_check_time = t,
                      st_raw_text = check_data,
                      st_data = row_data (map fst datapoints) vals\<rparr>],
                 next_state_id := next_state_id s + 1\<rparr>"
    by (auto simp: insert_state_def bind_err_Inr_iff split: if_splits)
  define new where "new = \<lparr>st_id = next_state_id s, st_domain = d, st_check_time = t,
                      st_raw_text = check_data,
                      st_data = row_data (map fst datapoints) vals\<rparr>"
  define s3 where "s3 = update_domain s2 d (\<lambda>r. r\<lparr>d_last_state := Some n\<rparr>)"
  show "find_state s2 n \<noteq> None"
    unfolding find_state_def s2 n by (simp add: find_append_last)
  have st: "state_tbl s3 = state_tbl s @ [new]" and ch: "changed_tbl s3 = changed_tbl s"
    and nx: "next_state_id s3 = Suc (next_state_id s)"
    by (simp_all add: s3_def update_domain_def s2 new_def)
  have dt: "domain_tbl s3 =
              map (\<lambda>r. if d_domain r = d then r\<lparr>d_last_state := Some n\<rparr> else r) (domain_tbl s)"
    by (simp add: s3_def update_domain_def s2)
  have names: "map d_domain (domain_tbl s3) = map d_domain (domain_tbl s)"
    unfolding dt by (rule updated_rows_domains) simp
  then have img: "d_domain ` set (domain_tbl s3) = d_domain ` set (domain_tbl s)"
    by (metis set_map)
  from dom obtain row where "row \<in> set (domain_tbl s)" "d_domain row = d"
    by (auto simp: find_domain_def dest: find_Some_holds)
  then have din: "d \<in> d_domain ` set (domain_tbl s)" by auto
  have fresh: "next_state_id s \<notin> st_id ` set (state_tbl s)"
    using wf unfolding wf_store_def by force
  have notime: "(d, t) \<notin> (\<lambda>st. (st_domain st, st_check_time st)) ` set (state_tbl s)"
    using nc by (auto simp: list_ex_iff)
  have c1: "distinct (map d_domain (domain_tbl s3))"
    using wf unfolding names wf_store_def by simp
  have c2: "distinct (map st_id (state_tbl s3))"
    using wf fresh unfolding st wf_store_def by (simp add: new_def)
  have c3: "distinct (map (\<lambda>st. (st_domain st, st_check_time st)) (state_tbl s3))"
    using wf notime unfolding st wf_store_def by (simp add: new_def)
  have c4: "distinct (map (\<lambda>c. (ch_state c, ch_info c)) (changed_tbl s3))"
    using wf unfolding ch wf_store_def by simp
  have c5: "\<forall>st \<in> set (state_tbl s3). st_id st < next_state_id s3"
    using wf unfolding st nx wf_store_def by (auto simp: new_def less_Suc_eq)
  have c6: "\<forall>st \<in> set (state_tbl s3). st_domain st \<in> d_domain ` set (domain_tbl s3)"
    using wf din unfolding st img wf_store_def by (auto simp: new_def)
  have c7: "\<forall>c \<in> set (changed_tbl s3). ch_state c \<in> st_id ` set (state_tbl s3)"
    using wf unfolding st ch wf_store_def by auto
  have c8: "\<forall>r \<in> set (domain_tbl s3). \<forall>i. d_last_state r = Some i \<longrightarrow>
            (\<exists>st \<in> set (state_tbl s3). st_id st = i \<and> st_domain st = d_domain r)"
  proof (intro ballI allI impI)
    fix r' i assume r': "r' \<in> set (domain_tbl s3)" and i: "d_last_state r' = Some i"
    from r' obtain r where r: "r \<in> set (domain_tbl s)"
      and e: "r' = (if d_domain r = d then r\<lparr>d_last_state := Some n\<rparr> else r)"
      unfolding dt using updated_rows_member by blast
    show "\<exists>st \<in> set (state_tbl s3). st_id st = i \<and> st_domain st = d_domain r'"
    proof (cases "d_domain r = d")
      case True
      with e i have "i = n" "d_domain r' = d" by auto
      then show ?thesis unfolding st by (simp add: new_def n)
    next
      case False
      with e have "r' = r" by simp
      with wf r i show ?thesis unfolding st wf_store_def by auto
    qed
  qed
  show "wf_store (update_domain s2 d (\<lambda>r. r\<lparr>d_last_state := Some n\<rparr>))"
    unfolding s3_def [symmetric] wf_store_def using c1 c2 c3 c4 c5 c6 c7 c8 by (intro conjI)
qed

lemma wf_store_state:
  assumes wf: "wf_store s" and res: "store_state t s d check_data pd do_dns = Inr (b, s')"
  shows "wf_store s'"
proof -
  define s1 where "s1 = update_domain s d
                (\<lambda>r. r\<lparr>d_cur_raw_text := Some check_data, d_last_checked := Some t,
                       d_do_dns := do_dns\<rparr>)"
  have wf1: "wf_store s1"
    unfolding s1_def by (rule wf_update_domain [OF wf]) simp_all
  from res obtain store_st ds where
    cmp: "compare_with_last s d pd = Inr (store_st, ds)"
    and rest: "(if store_st then
          bind_err (insert_state s1 t d check_data pd) (\<lambda>(new_state_id, s2).
          bind_err (set_last_state s2 d (Some new_state_id)) (\<lambda>s3.
          bind_err (insert_changed s3 new_state_id ds) (\<lambda>s4.
          Inr (True, s4))))
        else Inr (False, s1)) = Inr (b, s')"
    unfolding s1_def by (auto simp: store_state_def bind_err_Inr_iff Let_def)
  show ?thesis
  proof (cases store_st)
    case False
    with rest have "s' = s1" by simp
    with wf1 show ?thesis by simp
  next
    case True
    with rest obtain n s2 s3 where
      ins: "insert_state s1 t d check_data pd = Inr (n, s2)"
      and sl: "set_last_state s2 d (Some n) = Inr s3"
      and ic: "insert_changed s3 n ds = Inr s'"
      by (auto simp: bind_err_Inr_iff)
    from sl have "s3 = update_domain s2 d (\<lambda>r. r\<lparr>d_last_state := Some n\<rparr>)"
      by (auto simp: set_last_state_def split: if_splits)
    with wf_insert_state(1) [OF wf1 ins] have "wf_store s3" by simp
    from wf_insert_changed [OF this ic] show ?thesis .
  qed
qed

lemma wf_add_domain:
  assumes wf: "wf_store s" and add: "add_domain behavior s d = Inr (s1, do_dns)"
  shows "wf_store s1"
proof (cases "find_domain s d")
  case (Some row)
  with add have "s1 = s" by (simp add: add_domain_def)
  with wf show ?thesis by simp
next
  case None
  with add have s1: "s1 = s\<lparr>domain_tbl := domain_tbl s @
                [\<lparr>d_domain = d, d_last_state = None, d_active_checks = True,
                  d_do_dns = (behavior \<noteq> FORCE_NO), d_last_checked = None,
                  d_cur_raw_text = None\<rparr>]\<rparr>"
    by (auto simp: add_domain_new)
  from None have "d \<notin> d_domain ` set (domain_tbl s)"
    by (auto simp: find_domain_def find_None_iff_all)
  with wf show ?thesis
    unfolding wf_store_def s1 by auto
qed

lemma wf_check_domain:
  assumes wf: "wf_store s"
  shows "wf_store (snd (check_domain a w s d check_data))"
proof (cases "add_domain (dns_behavior a) s d")
  case (Inl e)
  with wf show ?thesis by (simp add: check_domain_def)
next
  case (Inr r)
  obtain s1 do_dns where r: "r = (s1, do_dns)" by (cases r)
  have wf1: "wf_store s1" using wf_add_domain [OF wf] Inr r by simp
  show ?thesis
  proof (cases "fetch_check_data a w d check_data")
    case None
    with Inr r wf1 show ?thesis by (simp add: check_domain_def)
  next
    case (Some got)
    show ?thesis
    proof (cases "bind_err (whois_load w d got) (\<lambda>parsed_data.
                       bind_err (clean_parsed_data parsed_data) (\<lambda>cleaned.
                       bind_err (if do_dns then inject_dns_lookups w d cleaned
                                 else Inr (inject_dns_placeholder cleaned)) (\<lambda>full.
                       store_state (now w) s1 d got full do_dns)))")
      case (Inl e)
      with Inr r Some wf1 show ?thesis by (simp add: check_domain_def)
    next
      case stored: (Inr res)
      obtain b s2 where res: "res = (b, s2)" by (cases res)
      from stored res obtain full where "store_state (now w) s1 d got full do_dns = Inr (b, s2)"
        by (auto simp: bind_err_Inr_iff)
      from wf_store_state [OF wf1 this] have "wf_store s2" .
      with Inr r Some stored res wf1 show ?thesis by (simp add: check_domain_def)
    qed
  qed
qed

lemma wf_empty_store: "wf_store empty_store"
  by (simp add: wf_store_def empty_store_def)

lemma wf_purge_domain:
  assumes wf: "wf_store s" and res: "purge_domain s d = Inr s'"
  shows "wf_store s'"
proof -
  from res have known: "have_domain s d"
    by (auto simp: purge_domain_def split: if_splits)
  from purge_domain_steps [OF wf known] res
  have "domain_tbl s' = filter (\<lambda>r. d_domain r \<noteq> d) (domain_tbl s)"
    and "state_tbl s' = filter (\<lambda>st. st_domain st \<noteq> d) (state_tbl s)"
    and "changed_tbl s' =
           filter (\<lambda>c. ch_state c \<notin> set (map fst (get_state_ids s d))) (changed_tbl s)"
    and "next_state_id s' = next_state_id s"
    by auto
  then show ?thesis by (rule wf_after_purge [OF wf])
qed

end
